theory Spec2Isabelle
  imports Complex_Main "HOL-Library.AList"
begin

section \<open>The session store and trigger engine of \<open>weather_omi.py\<close>\<close>

text \<open>
  The handler \<open>webhook\<close> of \<open>weather_omi.py\<close> is embedded as a function from the
  process state (the \<open>MessageBuffer\<close> object and the \<open>notification_cooldowns\<close>
  dictionary) and one request to a response and the next process state.

  Modelling decisions:
  \<^item> Every call of \<open>time.time()\<close> is a separate clock reading and a separate argument:
    the one in \<open>webhook\<close>, the one in \<open>get_buffer\<close> and the one in
    \<open>cleanup_old_sessions\<close>. Readings are real numbers. Python subtracts two doubles;
    for two positive readings within a factor of two of each other, and for a reading
    minus zero, that subtraction is exact, so comparing the real difference with a
    constant is what the code computes.
  \<^item> A Python \<open>str\<close> is a \<open>string\<close>, each \<open>char\<close> one code point below 256;
    \<open>lower\<close> and \<open>strip\<close> are \<open>str.lower\<close> and \<open>str.strip\<close> on these code points.
    Text with a code point from 256 on is outside the model.
  \<^item> A request is a session id, absent or a string, and the list of the \<open>text\<close>
    values of its segments, each absent or a string.
  \<^item> The two outbound calls \<open>get_openai_response\<close> and \<open>get_weather_forecast\<close>
    catch every exception and return a string, so they are function parameters; the
    text handed to \<open>get_openai_response\<close> is returned with the response.
  \<^item> The lock is not modelled: one request is processed at a time.
\<close>

subsection \<open>Python string operations\<close>

text \<open>
  A \<open>char\<close> is a code point below 256. \<open>str.lower\<close> maps \<open>A\<close> to \<open>Z\<close> and the
  capital letters U+00C0 to U+00DE, without the sign U+00D7, to the letter 32 places
  further on, and keeps every other code point below 256.
\<close>

definition upper_letters :: string where
  "upper_letters =
     ''ABCDEFGHIJKLMNOPQRSTUVWXYZ'' @
     [CHR 0xC0, CHR 0xC1, CHR 0xC2, CHR 0xC3, CHR 0xC4, CHR 0xC5, CHR 0xC6, CHR 0xC7,
     CHR 0xC8, CHR 0xC9, CHR 0xCA, CHR 0xCB, CHR 0xCC, CHR 0xCD, CHR 0xCE, CHR 0xCF,
     CHR 0xD0, CHR 0xD1, CHR 0xD2, CHR 0xD3, CHR 0xD4, CHR 0xD5, CHR 0xD6, CHR 0xD8,
     CHR 0xD9, CHR 0xDA, CHR 0xDB, CHR 0xDC, CHR 0xDD, CHR 0xDE]"

definition lower_letters :: string where
  "lower_letters =
     ''abcdefghijklmnopqrstuvwxyz'' @
     [CHR 0xE0, CHR 0xE1, CHR 0xE2, CHR 0xE3, CHR 0xE4, CHR 0xE5, CHR 0xE6, CHR 0xE7,
     CHR 0xE8, CHR 0xE9, CHR 0xEA, CHR 0xEB, CHR 0xEC, CHR 0xED, CHR 0xEE, CHR 0xEF,
     CHR 0xF0, CHR 0xF1, CHR 0xF2, CHR 0xF3, CHR 0xF4, CHR 0xF5, CHR 0xF6, CHR 0xF8,
     CHR 0xF9, CHR 0xFA, CHR 0xFB, CHR 0xFC, CHR 0xFD, CHR 0xFE]"

definition lower_char :: "char \<Rightarrow> char" where
  "lower_char c =
     (case map_of (zip upper_letters lower_letters) c of
        None \<Rightarrow> c
      | Some l \<Rightarrow> l)"

definition lower :: "string \<Rightarrow> string" where
  "lower s = map lower_char s"

text \<open>
  The code points below 256 for which \<open>str.isspace\<close> holds, which are the ones
  \<open>str.strip\<close> removes: 9 to 13, 28 to 32, U+0085 and U+00A0.
\<close>

definition isspace :: "char \<Rightarrow> bool" where
  "isspace c =
     (c \<in> set [CHR 0x09, CHR 0x0A, CHR 0x0B, CHR 0x0C, CHR 0x0D,
               CHR 0x1C, CHR 0x1D, CHR 0x1E, CHR 0x1F, CHR 0x20, CHR 0x85, CHR 0xA0])"

definition strip :: "string \<Rightarrow> string" where
  "strip s = rev (dropWhile isspace (rev (dropWhile isspace s)))"

definition startswith :: "string \<Rightarrow> string \<Rightarrow> bool" where
  "startswith s p = (take (length p) s = p)"

definition endswith :: "string \<Rightarrow> string \<Rightarrow> bool" where
  "endswith s p = (length p \<le> length s \<and> drop (length s - length p) s = p)"

text \<open>\<open>contains p s\<close> is Python's \<open>p in s\<close>.\<close>

fun contains :: "string \<Rightarrow> string \<Rightarrow> bool" where
  "contains p [] = (p = [])"
| "contains p (c # cs) = (startswith (c # cs) p \<or> contains p cs)"

text \<open>
  \<open>split_from sep cur s\<close> scans \<open>s\<close> from the left with the piece \<open>cur\<close> under
  construction, as \<open>str.split(sep)\<close> does for a non-empty separator; \<open>split s sep\<close> is
  \<open>s.split(sep)\<close>. The source only splits at \<open>"omi,"\<close> and \<open>","\<close>.
\<close>

function split_from :: "string \<Rightarrow> string \<Rightarrow> string \<Rightarrow> string list" where
  "split_from sep cur [] = [cur]"
| "split_from sep cur (c # cs) =
     (if sep \<noteq> [] \<and> startswith (c # cs) sep
      then cur # split_from sep [] (drop (length sep) (c # cs))
      else split_from sep (cur @ [c]) cs)"
  by pat_completeness auto
termination
  by (relation "measure (\<lambda>(sep, cur, s). length s)") auto

definition split :: "string \<Rightarrow> string \<Rightarrow> string list" where
  "split s sep = split_from sep [] s"

text \<open>\<open>join sep xs\<close> is \<open>sep.join(xs)\<close>.\<close>

fun join :: "string \<Rightarrow> string list \<Rightarrow> string" where
  "join sep [] = []"
| "join sep [x] = x"
| "join sep (x # y # ys) = x @ sep @ join sep (y # ys)"

subsection \<open>Configuration\<close>

definition TRIGGER_PHRASES :: "string list" where
  "TRIGGER_PHRASES = [''hey omi'', ''hey, omi'']"

definition PARTIAL_FIRST :: "string list" where
  "PARTIAL_FIRST = [''hey'', ''hey,'']"

definition PARTIAL_SECOND :: "string list" where
  "PARTIAL_SECOND = [''omi'']"

definition QUESTION_AGGREGATION_TIME :: real where
  "QUESTION_AGGREGATION_TIME = 5"

definition NOTIFICATION_COOLDOWN :: real where
  "NOTIFICATION_COOLDOWN = 10"

subsection \<open>The session store: class \<open>MessageBuffer\<close>\<close>

record buffer_data =
  messages :: "string list"
  trigger_detected :: bool
  trigger_time :: real
  collected_question :: "string list"
  response_sent :: bool
  partial_trigger :: bool
  partial_trigger_time :: real
  last_activity :: real

text \<open>
  The dictionary \<open>buffers\<close> is an association list, read with \<open>map_of\<close>, written with
  \<open>AList.update\<close> and deleted from with \<open>AList.delete\<close>.
\<close>

record message_buffer =
  buffers :: "(string \<times> buffer_data) list"
  cleanup_interval :: real
  last_cleanup :: real

text \<open>\<open>MessageBuffer.__init__\<close>, with the reading of the clock it makes.\<close>

definition new_message_buffer :: "real \<Rightarrow> message_buffer" where
  "new_message_buffer now = \<lparr>buffers = [], cleanup_interval = 300, last_cleanup = now\<rparr>"

definition fresh_buffer :: "real \<Rightarrow> buffer_data" where
  "fresh_buffer current_time =
     \<lparr>messages = [], trigger_detected = False, trigger_time = 0, collected_question = [],
      response_sent = False, partial_trigger = False, partial_trigger_time = 0,
      last_activity = current_time\<rparr>"

definition expired_sessions :: "message_buffer \<Rightarrow> real \<Rightarrow> string list" where
  "expired_sessions mb current_time =
     map fst (filter (\<lambda>(session_id, data). current_time - last_activity data > 3600) (buffers mb))"

definition cleanup_old_sessions :: "message_buffer \<Rightarrow> real \<Rightarrow> message_buffer" where
  "cleanup_old_sessions mb current_time =
     mb\<lparr>buffers := fold AList.delete (expired_sessions mb current_time) (buffers mb),
        last_cleanup := current_time\<rparr>"

text \<open>
  \<open>get_buffer mb session_id current_time sweep_time\<close>: \<open>current_time\<close> is the reading
  made by \<open>get_buffer\<close>, \<open>sweep_time\<close> the one made by \<open>cleanup_old_sessions\<close> when it
  is called. The result is the record of the session and the store after the call.
\<close>

definition get_buffer ::
  "message_buffer \<Rightarrow> string \<Rightarrow> real \<Rightarrow> real \<Rightarrow> buffer_data \<times> message_buffer" where
  "get_buffer mb session_id current_time sweep_time =
     (let mb1 = (if current_time - last_cleanup mb > cleanup_interval mb
                 then cleanup_old_sessions mb sweep_time else mb);
          data = (case map_of (buffers mb1) session_id of
                    None \<Rightarrow> fresh_buffer current_time
                  | Some d \<Rightarrow> d\<lparr>last_activity := current_time\<rparr>)
      in (data, mb1\<lparr>buffers := AList.update session_id data (buffers mb1)\<rparr>))"

subsection \<open>Outbound calls and responses\<close>

text \<open>
  \<open>get_openai_response\<close> returns the model's answer or, on any exception, a fixed
  apology; \<open>get_weather_forecast\<close> returns the forecast text or, on any exception, the
  text of the exception. Both always return a string.
\<close>

record providers =
  get_openai_response :: "string \<Rightarrow> string"
  get_weather_forecast :: "string \<Rightarrow> string \<Rightarrow> string"

text \<open>
  The four responses of \<open>webhook\<close>: \<open>{"status": "success"}\<close> with 200, the missing
  session id error with 400, \<open>{"message": forecast}\<close> with 200 and the invalid location
  error with 400.
\<close>

datatype response = Success | NoSessionId | Message string | InvalidLocation

subsection \<open>The trigger engine: the body of the loop over the segments\<close>

type_synonym cooldowns = "string \<Rightarrow> real"

text \<open>
  The outcome of one iteration: the loop goes on (\<open>continue\<close> or the end of the body),
  or \<open>webhook\<close> returns. Every \<open>return\<close> inside the loop follows a call of
  \<open>get_openai_response\<close>; its argument is the second field of \<open>Return\<close>.
\<close>

datatype step =
    Continue (step_buffer: buffer_data) (step_cooldowns: cooldowns)
  | Return (step_response: response) (step_query: string)
      (step_buffer: buffer_data) (step_cooldowns: cooldowns)

text \<open>
  What an iteration leaves apart from \<open>notification_cooldowns\<close>: the response and the
  text sent to \<open>get_openai_response\<close> when the handler returns, and the record.
\<close>

definition step_outcome :: "step \<Rightarrow> (response \<times> string) option \<times> buffer_data" where
  "step_outcome s =
     (case s of Continue b cd \<Rightarrow> (None, b) | Return r q b cd \<Rightarrow> (Some (r, q), b))"

definition has_trigger :: "string \<Rightarrow> bool" where
  "has_trigger text = list_ex (\<lambda>trigger. contains trigger text) (map lower TRIGGER_PHRASES)"

definition ends_first :: "string \<Rightarrow> bool" where
  "ends_first text = list_ex (\<lambda>part. endswith text (lower part)) PARTIAL_FIRST"

definition has_second :: "string \<Rightarrow> bool" where
  "has_second text = list_ex (\<lambda>part. contains (lower part) (lower text)) PARTIAL_SECOND"

definition question_part :: "string \<Rightarrow> string" where
  "question_part text =
     (if contains ''omi,'' (lower text) then strip (last (split text ''omi,'')) else [])"

text \<open>Lines 169 to 186: the assignments of the complete trigger phrase.\<close>

definition complete_trigger :: "string \<Rightarrow> real \<Rightarrow> string \<Rightarrow> buffer_data \<Rightarrow> cooldowns \<Rightarrow> step" where
  "complete_trigger sid current_time text b cd =
     (let b1 = b\<lparr>trigger_detected := True, trigger_time := current_time,
                 collected_question := [], response_sent := False, partial_trigger := False\<rparr>;
          cd1 = cd(sid := current_time);
          qp = question_part text
      in Continue (if qp \<noteq> [] then b1\<lparr>collected_question := collected_question b1 @ [qp]\<rparr>
                   else b1) cd1)"

text \<open>
  Lines 190 to 232, the partial triggers. The first component of the result is \<open>True\<close>
  when the iteration ends with \<open>continue\<close>, and \<open>False\<close> when control falls through to
  the collection of the question; the second is the record as assigned so far.
\<close>

definition check_partial :: "real \<Rightarrow> string \<Rightarrow> buffer_data \<Rightarrow> bool \<times> buffer_data" where
  "check_partial current_time text b =
     (if \<not> trigger_detected b then
        if ends_first text then
          (True, b\<lparr>partial_trigger := True, partial_trigger_time := current_time\<rparr>)
        else if partial_trigger b then
          (let time_since_partial = current_time - partial_trigger_time b in
           if time_since_partial \<le> 2 then
             if has_second text then
               (let b1 = b\<lparr>trigger_detected := True, trigger_time := current_time,
                           collected_question := [], response_sent := False,
                           partial_trigger := False\<rparr>;
                    qp = question_part text
                in (True, if qp \<noteq> [] then b1\<lparr>collected_question := collected_question b1 @ [qp]\<rparr>
                          else b1))
             else (False, b)
           else (False, b\<lparr>partial_trigger := False\<rparr>))
        else (False, b)
      else (False, b))"

definition should_process :: "real \<Rightarrow> string list \<Rightarrow> string \<Rightarrow> bool" where
  "should_process time_since_trigger cq text =
     ((time_since_trigger > QUESTION_AGGREGATION_TIME \<and> cq \<noteq> [])
      \<or> (cq \<noteq> [] \<and> contains ''?'' text)
      \<or> time_since_trigger > QUESTION_AGGREGATION_TIME * 1.5)"

definition full_question :: "string list \<Rightarrow> string" where
  "full_question cq =
     (let q = strip (join '' '' cq) in if \<not> endswith q ''?'' then q @ ''?'' else q)"

definition location_query :: "string \<Rightarrow> string" where
  "location_query fq =
     ''Extract the city and country from the following question, comma separate it, it should be the only thing returned: '' @ fq"

text \<open>Lines 284 to 288, under the comment \<open>Reset all states\<close>.\<close>

definition reset_states :: "buffer_data \<Rightarrow> buffer_data" where
  "reset_states b =
     b\<lparr>trigger_detected := False, trigger_time := 0, collected_question := [],
       response_sent := True, partial_trigger := False\<rparr>"

text \<open>Lines 261 to 304: the question is sent, and \<open>webhook\<close> returns on both branches.\<close>

definition dispatch :: "providers \<Rightarrow> buffer_data \<Rightarrow> cooldowns \<Rightarrow> step" where
  "dispatch P b cd =
     (let q = location_query (full_question (collected_question b));
          location_response = get_openai_response P q;
          location_parts = split location_response '',''
      in if length location_parts = 2 then
           (let city = strip (location_parts ! 0);
                country = strip (location_parts ! 1);
                forecast_response = get_weather_forecast P city country
            in Return (Message forecast_response) q (reset_states b) cd)
         else Return InvalidLocation q b cd)"

text \<open>Lines 235 to 304: the collection of the question.\<close>

definition collect_question ::
  "providers \<Rightarrow> real \<Rightarrow> bool \<Rightarrow> string \<Rightarrow> buffer_data \<Rightarrow> cooldowns \<Rightarrow> step" where
  "collect_question P current_time has_processed text b cd =
     (if trigger_detected b \<and> \<not> response_sent b \<and> \<not> has_processed then
        (let time_since_trigger = current_time - trigger_time b;
             b1 = (if time_since_trigger \<le> QUESTION_AGGREGATION_TIME
                   then b\<lparr>collected_question := collected_question b @ [text]\<rparr> else b)
         in if should_process time_since_trigger (collected_question b1) text
               \<and> collected_question b1 \<noteq> []
            then dispatch P b1 cd
            else Continue b1 cd)
      else Continue b cd)"

text \<open>
  One iteration of \<open>for segment in segments\<close>. A segment is the value of
  \<open>segment.get("text")\<close>: \<open>None\<close> when the key is missing.
\<close>

definition process_segment ::
  "providers \<Rightarrow> string \<Rightarrow> real \<Rightarrow> bool \<Rightarrow> string option \<Rightarrow> buffer_data \<Rightarrow> cooldowns \<Rightarrow> step" where
  "process_segment P sid current_time has_processed segment b cd =
     (case segment of
        None \<Rightarrow> Continue b cd
      | Some raw \<Rightarrow>
          if raw = [] \<or> has_processed then Continue b cd
          else
            (let text = strip (lower raw) in
             if has_trigger text \<and> \<not> trigger_detected b
             then complete_trigger sid current_time text b cd
             else
               (case check_partial current_time text b of
                  (True, b1) \<Rightarrow> Continue b1 cd
                | (False, b1) \<Rightarrow> collect_question P current_time has_processed text b1 cd)))"

text \<open>
  The loop. \<open>has_processed\<close> is assigned only on the line before a \<open>return\<close>, so it
  keeps its value from one iteration to the next.
\<close>

fun process_segments ::
  "providers \<Rightarrow> string \<Rightarrow> real \<Rightarrow> bool \<Rightarrow> string option list \<Rightarrow> buffer_data \<Rightarrow> cooldowns \<Rightarrow> step" where
  "process_segments P sid current_time has_processed [] b cd = Continue b cd"
| "process_segments P sid current_time has_processed (segment # rest) b cd =
     (case process_segment P sid current_time has_processed segment b cd of
        Continue b1 cd1 \<Rightarrow> process_segments P sid current_time has_processed rest b1 cd1
      | Return r q b1 cd1 \<Rightarrow> Return r q b1 cd1)"

subsection \<open>The handler \<open>webhook\<close>\<close>

record app_state =
  message_buffer :: message_buffer
  notification_cooldowns :: cooldowns

record request =
  session_id :: "string option"
  segments :: "string option list"

text \<open>The three readings of the clock a request can make, in the order they are made.\<close>

record clock =
  webhook_time :: real
  get_buffer_time :: real
  cleanup_time :: real

text \<open>
  \<open>buffer_data\<close> is the dictionary stored in \<open>buffers\<close> itself, so what the loop
  assigns is stored under the session id. The result is the response, the text sent to
  \<open>get_openai_response\<close> if the call was made, and the next state.
\<close>

definition store_buffer :: "string \<Rightarrow> buffer_data \<Rightarrow> message_buffer \<Rightarrow> message_buffer" where
  "store_buffer sid b mb = mb\<lparr>buffers := AList.update sid b (buffers mb)\<rparr>"

definition webhook ::
  "providers \<Rightarrow> request \<Rightarrow> clock \<Rightarrow> app_state \<Rightarrow> response \<times> string option \<times> app_state" where
  "webhook P req clk st =
     (case session_id req of
        None \<Rightarrow> (NoSessionId, None, st)
      | Some sid \<Rightarrow>
          if sid = [] then (NoSessionId, None, st)
          else
            (let current_time = webhook_time clk;
                 (b, mb) = get_buffer (message_buffer st) sid (get_buffer_time clk) (cleanup_time clk);
                 cd = notification_cooldowns st
             in if trigger_detected b \<and> \<not> response_sent b
                   \<and> current_time - cd sid < NOTIFICATION_COOLDOWN
                then (Success, None, st\<lparr>message_buffer := mb\<rparr>)
                else
                  (case process_segments P sid current_time False (segments req) b cd of
                     Continue b1 cd1 \<Rightarrow>
                       (Success, None,
                        \<lparr>message_buffer = store_buffer sid b1 mb, notification_cooldowns = cd1\<rparr>)
                   | Return r q b1 cd1 \<Rightarrow>
                       (r, Some q,
                        \<lparr>message_buffer = store_buffer sid b1 mb, notification_cooldowns = cd1\<rparr>))))"

text \<open>
  The state of the process when the module is loaded at clock reading \<open>now\<close>, and the
  state after a sequence of requests, each with its collaborators and its clock readings.
\<close>

definition initial_state :: "real \<Rightarrow> app_state" where
  "initial_state now =
     \<lparr>message_buffer = new_message_buffer now, notification_cooldowns = (\<lambda>sid. 0)\<rparr>"

fun run :: "app_state \<Rightarrow> (providers \<times> request \<times> clock) list \<Rightarrow> app_state" where
  "run st [] = st"
| "run st ((P, req, clk) # rest) = run (snd (snd (webhook P req clk st))) rest"

subsection \<open>Properties of records and example collaborators\<close>

text \<open>The invariant of the data model: a question is collected only under a trigger.\<close>

definition question_implies_trigger :: "buffer_data \<Rightarrow> bool" where
  "question_implies_trigger b = (collected_question b \<noteq> [] \<longrightarrow> trigger_detected b)"

definition all_sessions :: "(buffer_data \<Rightarrow> bool) \<Rightarrow> message_buffer \<Rightarrow> bool" where
  "all_sessions Q mb = list_all (\<lambda>(sid, b). Q b) (buffers mb)"

text \<open>A language model that names no location, and one that always names Paris.\<close>

definition silent_providers :: providers where
  "silent_providers =
     \<lparr>get_openai_response = (\<lambda>q. ''unknown''), get_weather_forecast = (\<lambda>city country. [])\<rparr>"

definition paris_providers :: providers where
  "paris_providers =
     \<lparr>get_openai_response = (\<lambda>q. ''Paris, France''),
      get_weather_forecast = (\<lambda>city country. ''Sunny in '' @ city @ '', '' @ country)\<rparr>"

text \<open>
  Concrete inputs for the examples: a request whose clock readings all are \<open>t\<close>, a
  request of one session with the given segment texts, the record stored for a session,
  the empty \<open>notification_cooldowns\<close>, and a record on which the trigger was confirmed at
  \<open>t\<close> and which has collected \<open>cq\<close>.
\<close>

definition at_time :: "real \<Rightarrow> clock" where
  "at_time t = \<lparr>webhook_time = t, get_buffer_time = t, cleanup_time = t\<rparr>"

definition delivery :: "string \<Rightarrow> string list \<Rightarrow> request" where
  "delivery sid texts = \<lparr>session_id = Some sid, segments = map Some texts\<rparr>"

definition session :: "app_state \<Rightarrow> string \<Rightarrow> buffer_data option" where
  "session st sid = map_of (buffers (message_buffer st)) sid"

definition no_cooldowns :: cooldowns where
  "no_cooldowns = (\<lambda>sid. 0)"

definition collecting_since :: "real \<Rightarrow> string list \<Rightarrow> buffer_data" where
  "collecting_since t cq =
     (fresh_buffer t)\<lparr>trigger_detected := True, trigger_time := t, collected_question := cq\<rparr>"

section \<open>The session store\<close>

lemma map_of_fold_delete:
  "map_of (fold AList.delete ks al) k = (if k \<in> set ks then None else map_of al k)"
  by (induction ks arbitrary: al) (auto simp: delete_conv')

lemma set_delete_subset: "set (AList.delete k al) \<subseteq> set al"
  by (auto simp: AList.delete_eq)

lemma set_fold_delete: "set (fold AList.delete ks al) \<subseteq> set al"
proof (induction ks arbitrary: al)
  case Nil
  show ?case by simp
next
  case (Cons k ks)
  have "set (fold AList.delete ks (AList.delete k al)) \<subseteq> set (AList.delete k al)"
    by (rule Cons.IH)
  also have "\<dots> \<subseteq> set al" by (rule set_delete_subset)
  finally show ?case by simp
qed

lemma distinct_fold_delete:
  "distinct (map fst al) \<Longrightarrow> distinct (map fst (fold AList.delete ks al))"
  by (induction ks arbitrary: al) (auto simp: distinct_delete)

lemma expired_iff:
  assumes "distinct (map fst (buffers mb))"
  shows "k \<in> set (expired_sessions mb now) \<longleftrightarrow>
         (\<exists>d. map_of (buffers mb) k = Some d \<and> now - last_activity d > 3600)"
  using assms by (auto simp: expired_sessions_def image_iff)

lemma map_of_cleanup:
  assumes "distinct (map fst (buffers mb))"
  shows "map_of (buffers (cleanup_old_sessions mb now)) sid =
    (case map_of (buffers mb) sid of None \<Rightarrow> None
     | Some d \<Rightarrow> if now - last_activity d > 3600 then None else Some d)"
  by (simp add: cleanup_old_sessions_def map_of_fold_delete expired_iff [OF assms]
      split: option.splits)

lemma set_update_subset: "set (AList.update k v al) \<subseteq> insert (k, v) (set al)"
  by (induction al) (auto split: if_splits)

lemma all_sessions_cleanup:
  "all_sessions Q mb \<Longrightarrow> all_sessions Q (cleanup_old_sessions mb now)"
  using set_fold_delete [of "expired_sessions mb now" "buffers mb"]
  by (auto simp: all_sessions_def cleanup_old_sessions_def list_all_iff)

lemma all_sessions_store:
  "all_sessions Q mb \<Longrightarrow> Q b \<Longrightarrow> all_sessions Q (store_buffer sid b mb)"
  using set_update_subset [of sid b "buffers mb"]
  by (auto simp: all_sessions_def store_buffer_def list_all_iff)

lemma all_sessions_lookup:
  "all_sessions Q mb \<Longrightarrow> map_of (buffers mb) sid = Some d \<Longrightarrow> Q d"
  by (auto simp: all_sessions_def list_all_iff dest: map_of_SomeD)

lemma get_buffer_eq:
  "get_buffer mb sid t ts =
     (let mb1 = (if t - last_cleanup mb > cleanup_interval mb
                 then cleanup_old_sessions mb ts else mb);
          data = (case map_of (buffers mb1) sid of
                    None \<Rightarrow> fresh_buffer t | Some d \<Rightarrow> d\<lparr>last_activity := t\<rparr>)
      in (data, store_buffer sid data mb1))"
  by (simp add: get_buffer_def store_buffer_def Let_def)

lemma distinct_get_buffer:
  "distinct (map fst (buffers mb)) \<Longrightarrow> distinct (map fst (buffers (snd (get_buffer mb sid t ts))))"
  by (simp add: get_buffer_def Let_def cleanup_old_sessions_def distinct_fold_delete distinct_update)

lemma split_from_nonempty: "split_from sep cur s \<noteq> []"
  by (induction sep cur s rule: split_from.induct) auto

text \<open>
  Every state the process reaches keeps one entry per session id and the cleanup
  interval of 300 seconds, the two properties of the store the theorems below assume.
\<close>

lemma store_webhook:
  assumes "distinct (map fst (buffers (message_buffer st)))"
    and "cleanup_interval (message_buffer st) = 300"
  shows "distinct (map fst (buffers (message_buffer (snd (snd (webhook P req clk st))))))
         \<and> cleanup_interval (message_buffer (snd (snd (webhook P req clk st)))) = 300"
proof (cases "session_id req")
  case None
  then show ?thesis using assms by (simp add: webhook_def)
next
  case (Some sid)
  obtain b mb where gb:
    "get_buffer (message_buffer st) sid (get_buffer_time clk) (cleanup_time clk) = (b, mb)"
    by (cases "get_buffer (message_buffer st) sid (get_buffer_time clk) (cleanup_time clk)")
  have d: "distinct (map fst (buffers mb))"
    using distinct_get_buffer [OF assms(1), of sid "get_buffer_time clk" "cleanup_time clk"] gb
    by simp
  have c: "cleanup_interval mb = 300"
    using gb assms(2)
    by (auto simp: get_buffer_eq store_buffer_def cleanup_old_sessions_def Let_def
        split: if_splits)
  have "distinct (map fst (buffers (store_buffer sid b1 mb)))
        \<and> cleanup_interval (store_buffer sid b1 mb) = 300" for b1
    using d c by (simp add: store_buffer_def distinct_update)
  then show ?thesis
    using Some assms gb d c
    by (cases "process_segments P sid (webhook_time clk) False (segments req) b
             (notification_cooldowns st)") (simp_all add: webhook_def Let_def)
qed

lemma store_run:
  "distinct (map fst (buffers (message_buffer st))) \<Longrightarrow>
   cleanup_interval (message_buffer st) = 300 \<Longrightarrow>
   distinct (map fst (buffers (message_buffer (run st reqs))))
   \<and> cleanup_interval (message_buffer (run st reqs)) = 300"
proof (induction reqs arbitrary: st)
  case Nil
  then show ?case by simp
next
  case (Cons x reqs)
  obtain P req clk where x: "x = (P, req, clk)" by (cases x)
  from store_webhook [OF Cons.prems, of P req clk]
  show ?case unfolding x run.simps by (intro Cons.IH) simp_all
qed

lemma store_reachable:
  "distinct (map fst (buffers (message_buffer (run (initial_state t0) reqs))))
   \<and> cleanup_interval (message_buffer (run (initial_state t0) reqs)) = 300"
  by (rule store_run) (simp_all add: initial_state_def new_message_buffer_def)

text \<open>
  Claim C7. In a store whose dictionary has one entry per key and whose cleanup interval
  is 300, \<open>cleanup_old_sessions\<close> at reading \<open>now\<close> removes exactly the records with
  \<open>now - last_activity > 3600\<close> and keeps every other record as it is. \<open>get_buffer\<close>
  at reading \<open>t\<close> runs that sweep exactly when \<open>t - last_cleanup > 300\<close>, and looks
  the session up, or creates it, in the store the sweep leaves.
\<close>

theorem sweep_removes_exactly_expired:
  assumes "distinct (map fst (buffers mb))" and "cleanup_interval mb = 300"
  shows "map_of (buffers (cleanup_old_sessions mb now)) sid =
           (case map_of (buffers mb) sid of
              None \<Rightarrow> None
            | Some d \<Rightarrow> if now - last_activity d > 3600 then None else Some d)
         \<and> (let swept = (t - last_cleanup mb > 300);
                mb1 = (if swept then cleanup_old_sessions mb now else mb);
                (b, mb2) = get_buffer mb sid' t now
            in last_cleanup mb2 = (if swept then now else last_cleanup mb)
               \<and> b = (case map_of (buffers mb1) sid' of
                        None \<Rightarrow> fresh_buffer t
                      | Some d \<Rightarrow> d\<lparr>last_activity := t\<rparr>)
               \<and> map_of (buffers mb2) = (map_of (buffers mb1))(sid' \<mapsto> b))"
proof -
  have "last_cleanup (cleanup_old_sessions mb now) = now"
    by (simp add: cleanup_old_sessions_def)
  then show ?thesis
    using assms by (simp add: map_of_cleanup get_buffer_eq store_buffer_def Let_def update_conv')
qed

theorem sweep_removes_exactly_expired_witness:
  "(let mb = \<lparr>buffers = [(''old'', fresh_buffer 1000), (''new'', fresh_buffer 4000)],
              cleanup_interval = 300, last_cleanup = 4000\<rparr>;
        (b, mb2) = get_buffer mb ''old'' 4700 4701
    in distinct (map fst (buffers mb)) \<and> cleanup_interval mb = 300
       \<and> map_of (buffers (cleanup_old_sessions mb 4701)) ''old'' = None
       \<and> map_of (buffers (cleanup_old_sessions mb 4701)) ''new'' = Some (fresh_buffer 4000)
       \<and> last_cleanup mb2 = 4701 \<and> b = fresh_buffer 4700)"
  using sweep_removes_exactly_expired [of
      "\<lparr>buffers = [(''old'', fresh_buffer 1000), (''new'', fresh_buffer 4000)],
              cleanup_interval = 300, last_cleanup = 4000\<rparr>" 4701 "''old''" 4700 "''old''"]
    sweep_removes_exactly_expired [of
      "\<lparr>buffers = [(''old'', fresh_buffer 1000), (''new'', fresh_buffer 4000)],
              cleanup_interval = 300, last_cleanup = 4000\<rparr>" 4701 "''new''" 4700 "''old''"]
  by (simp add: fresh_buffer_def Let_def split: prod.splits)

lemma map_of_cleanup_keep:
  assumes "distinct (map fst (buffers mb))" and "map_of (buffers mb) sid = Some b"
    and "\<not> now - last_activity b > 3600"
  shows "map_of (buffers (cleanup_old_sessions mb now)) sid = Some b"
  using assms by (simp add: map_of_cleanup)

lemma get_buffer_untriggered:
  assumes "case map_of (buffers mb) sid of None \<Rightarrow> True | Some b \<Rightarrow> \<not> trigger_detected b"
  shows "\<not> trigger_detected (fst (get_buffer mb sid t ts))"
  using assms
  by (auto simp: get_buffer_eq Let_def cleanup_old_sessions_def map_of_fold_delete
      fresh_buffer_def split: option.splits)

lemma map_of_store_buffer: "map_of (buffers (store_buffer sid b mb)) sid = Some b"
  by (simp add: store_buffer_def update_conv')

section \<open>The invariant of the collected question\<close>

lemma qit_fresh: "question_implies_trigger (fresh_buffer t)"
  by (simp add: question_implies_trigger_def fresh_buffer_def)

lemma qit_touch:
  "question_implies_trigger d \<Longrightarrow> question_implies_trigger (d\<lparr>last_activity := t\<rparr>)"
  by (simp add: question_implies_trigger_def)

lemma get_buffer_qit:
  assumes "all_sessions question_implies_trigger mb"
    and "get_buffer mb sid t ts = (b, mb')"
  shows "question_implies_trigger b \<and> all_sessions question_implies_trigger mb'"
proof -
  define mb1 where "mb1 = (if t - last_cleanup mb > cleanup_interval mb
                 then cleanup_old_sessions mb ts else mb)"
  have a1: "all_sessions question_implies_trigger mb1"
    using assms(1) by (simp add: mb1_def all_sessions_cleanup)
  have b: "b = (case map_of (buffers mb1) sid of
                    None \<Rightarrow> fresh_buffer t | Some d \<Rightarrow> d\<lparr>last_activity := t\<rparr>)"
    and mb': "mb' = store_buffer sid b mb1"
    using assms(2) by (auto simp: get_buffer_eq mb1_def Let_def)
  have qb: "question_implies_trigger b"
    unfolding b using all_sessions_lookup [OF a1] 
    by (auto split: option.splits intro: qit_fresh qit_touch)
  then show ?thesis using a1 by (simp add: mb' all_sessions_store)
qed

lemma qit_complete_trigger:
  "question_implies_trigger (step_buffer (complete_trigger sid ct text b cd))"
  by (simp add: complete_trigger_def question_implies_trigger_def Let_def)

lemma qit_check_partial:
  "question_implies_trigger b \<Longrightarrow> question_implies_trigger (snd (check_partial ct text b))"
  by (auto simp: check_partial_def question_implies_trigger_def Let_def)

lemma qit_dispatch:
  "trigger_detected b \<Longrightarrow> question_implies_trigger (step_buffer (dispatch P b cd))"
  by (simp add: dispatch_def reset_states_def question_implies_trigger_def Let_def)

lemma qit_collect_question:
  "question_implies_trigger b \<Longrightarrow>
   question_implies_trigger (step_buffer (collect_question P ct hp text b cd))"
  by (simp add: collect_question_def Let_def qit_dispatch) (simp add: question_implies_trigger_def)

lemma qit_process_segment:
  assumes "question_implies_trigger b"
  shows "question_implies_trigger (step_buffer (process_segment P sid ct hp seg b cd))"
proof (cases seg)
  case None
  then show ?thesis using assms by (simp add: process_segment_def)
next
  case (Some raw)
  obtain c b1 where cp: "check_partial ct (strip (lower raw)) b = (c, b1)"
    by (cases "check_partial ct (strip (lower raw)) b")
  have "question_implies_trigger b1"
    using qit_check_partial [OF assms, of ct "strip (lower raw)"] cp by simp
  then show ?thesis
    using Some assms cp
    by (cases c) (simp_all add: process_segment_def Let_def qit_complete_trigger
        qit_collect_question)
qed

lemma qit_process_segments:
  "question_implies_trigger b \<Longrightarrow>
   question_implies_trigger (step_buffer (process_segments P sid ct hp segs b cd))"
proof (induction segs arbitrary: b cd)
  case Nil
  then show ?case by simp
next
  case (Cons seg segs)
  have q: "question_implies_trigger (step_buffer (process_segment P sid ct hp seg b cd))"
    using Cons.prems by (rule qit_process_segment)
  show ?case
  proof (cases "process_segment P sid ct hp seg b cd")
    case (Continue b1 cd1)
    with q Cons.IH [of b1 cd1] show ?thesis by simp
  next
    case (Return r qu b1 cd1)
    with q show ?thesis by simp
  qed
qed

lemma qit_webhook:
  assumes "all_sessions question_implies_trigger (message_buffer st)"
  shows "all_sessions question_implies_trigger (message_buffer (snd (snd (webhook P req clk st))))"
proof (cases "session_id req")
  case None
  then show ?thesis using assms by (simp add: webhook_def)
next
  case (Some sid)
  obtain b mb where gb:
    "get_buffer (message_buffer st) sid (get_buffer_time clk) (cleanup_time clk) = (b, mb)"
    by (cases "get_buffer (message_buffer st) sid (get_buffer_time clk) (cleanup_time clk)")
  from get_buffer_qit [OF assms gb]
  have qb: "question_implies_trigger b" and qmb: "all_sessions question_implies_trigger mb"
    by simp_all
  have "all_sessions question_implies_trigger (store_buffer sid
          (step_buffer (process_segments P sid (webhook_time clk) False (segments req) b
             (notification_cooldowns st))) mb)"
    using qmb qit_process_segments [OF qb] by (rule all_sessions_store)
  then show ?thesis
    using Some assms gb qmb
    by (cases "process_segments P sid (webhook_time clk) False (segments req) b
             (notification_cooldowns st)") (simp_all add: webhook_def Let_def)
qed

lemma qit_run:
  "all_sessions question_implies_trigger (message_buffer st) \<Longrightarrow>
   all_sessions question_implies_trigger (message_buffer (run st reqs))"
proof (induction reqs arbitrary: st)
  case Nil
  then show ?case by simp
next
  case (Cons x reqs)
  obtain P req clk where x: "x = (P, req, clk)" by (cases x)
  show ?case unfolding x run.simps
    by (rule Cons.IH) (rule qit_webhook [OF Cons.prems])
qed


text \<open>
  Claim C6. In every state the process reaches from its start by any sequence of
  requests, every session record with a non-empty \<open>collected_question\<close> has
  \<open>trigger_detected\<close> set; and one iteration of the loop over the segments takes a
  record with this property to a record with this property, whether the loop continues
  or the handler returns.
\<close>

theorem collected_question_implies_trigger:
  "all_sessions question_implies_trigger (message_buffer (run (initial_state t0) reqs))
   \<and> (question_implies_trigger b \<longrightarrow>
        question_implies_trigger (step_buffer (process_segment P sid ct hp seg b cd)))"
proof -
  have "all_sessions question_implies_trigger (message_buffer (initial_state t0))"
    by (simp add: all_sessions_def initial_state_def new_message_buffer_def)
  then show ?thesis by (simp add: qit_run qit_process_segment)
qed

theorem collected_question_implies_trigger_witness:
  "session (run (initial_state 0)
       [(silent_providers, delivery ''s1'' [''Hey Omi, what is''], at_time 100)]) ''s1''
     = Some (collecting_since 100 [''what is''])
   \<and> collected_question (collecting_since 100 [''what is'']) \<noteq> []
   \<and> trigger_detected (collecting_since 100 [''what is''])
   \<and> trigger_detected (step_buffer (process_segment silent_providers ''s1'' 101 False
         (Some ''the weather'') (collecting_since 100 [''what is'']) no_cooldowns))"
  using collected_question_implies_trigger [of 0
      "[(silent_providers, delivery ''s1'' [''Hey Omi, what is''], at_time 100)]"
      "collecting_since 100 [''what is'']" silent_providers "''s1''" 101 False
      "Some ''the weather''" no_cooldowns]
  by code_simp

section \<open>The iteration of the loop\<close>

lemma empty_text: "strip (lower []) = []"
  by (simp add: strip_def lower_def)

lemma has_trigger_nonempty: "has_trigger (strip (lower raw)) \<Longrightarrow> raw \<noteq> []"
proof
  assume h: "has_trigger (strip (lower raw))" and "raw = []"
  have "\<not> has_trigger []" by code_simp
  with h \<open>raw = []\<close> show False by (simp add: empty_text)
qed

lemma ends_first_nonempty: "ends_first (strip (lower raw)) \<Longrightarrow> raw \<noteq> []"
proof
  assume h: "ends_first (strip (lower raw))" and "raw = []"
  have "\<not> ends_first []" by code_simp
  with h \<open>raw = []\<close> show False by (simp add: empty_text)
qed

lemma has_second_nonempty: "has_second (strip (lower raw)) \<Longrightarrow> raw \<noteq> []"
proof
  assume h: "has_second (strip (lower raw))" and "raw = []"
  have "\<not> has_second []" by code_simp
  with h \<open>raw = []\<close> show False by (simp add: empty_text)
qed

lemma process_segment_skip:
  "process_segment P sid ct hp None b cd = Continue b cd"
  "process_segment P sid ct hp (Some []) b cd = Continue b cd"
  by (simp_all add: process_segment_def)

lemma process_segment_triggered:
  "raw \<noteq> [] \<Longrightarrow> trigger_detected b \<Longrightarrow>
   process_segment P sid ct False (Some raw) b cd =
     collect_question P ct False (strip (lower raw)) b cd"
  by (simp add: process_segment_def check_partial_def Let_def)

lemma process_segment_complete:
  "raw \<noteq> [] \<Longrightarrow> \<not> trigger_detected b \<Longrightarrow> has_trigger (strip (lower raw)) \<Longrightarrow>
   process_segment P sid ct False (Some raw) b cd =
     complete_trigger sid ct (strip (lower raw)) b cd"
  by (simp add: process_segment_def Let_def)

lemma collect_question_untriggered:
  "\<not> trigger_detected b \<Longrightarrow> collect_question P ct hp text b cd = Continue b cd"
  by (simp add: collect_question_def)

lemma check_partial_fallthrough:
  "check_partial ct text b = (False, b1) \<Longrightarrow> \<not> trigger_detected b \<Longrightarrow> \<not> trigger_detected b1"
  by (auto simp: check_partial_def Let_def split: if_splits)

lemma process_segment_untriggered:
  assumes "\<not> trigger_detected b" and "\<not> has_trigger (strip (lower raw))"
  shows "process_segment P sid ct False (Some raw) b cd =
     (if raw = [] then Continue b cd
      else Continue (snd (check_partial ct (strip (lower raw)) b)) cd)"
proof -
  obtain c b1 where cp: "check_partial ct (strip (lower raw)) b = (c, b1)"
    by (cases "check_partial ct (strip (lower raw)) b")
  show ?thesis
  proof (cases c)
    case True
    with cp assms show ?thesis by (simp add: process_segment_def Let_def)
  next
    case False
    with cp assms(1) have "\<not> trigger_detected b1"
      by (simp add: check_partial_fallthrough)
    with False cp assms show ?thesis
      by (simp add: process_segment_def Let_def collect_question_untriggered)
  qed
qed

lemma process_segment_Return:
  assumes "process_segment P sid ct hp (Some raw) b cd = Return r q b1 cd1"
  shows "raw \<noteq> [] \<and> \<not> hp \<and> trigger_detected b
         \<and> collect_question P ct False (strip (lower raw)) b cd = Return r q b1 cd1"
proof -
  have nz: "raw \<noteq> []" and hp: "\<not> hp"
    using assms by (auto simp: process_segment_def split: if_splits)
  have td: "trigger_detected b"
  proof (rule ccontr)
    assume n: "\<not> trigger_detected b"
    show False
    proof (cases "has_trigger (strip (lower raw))")
      case True
      with n nz hp assms show False
        by (simp add: process_segment_complete complete_trigger_def Let_def)
    next
      case False
      with n nz hp assms show False
        by (simp add: process_segment_untriggered)
    qed
  qed
  with nz hp assms show ?thesis by (simp add: process_segment_triggered)
qed

lemma strip_decompose:
  "\<exists>pre post. s = pre @ strip s @ post \<and> list_all isspace pre \<and> list_all isspace post"
proof -
  define t where "t = dropWhile isspace s"
  have s: "s = takeWhile isspace s @ t"
    by (simp add: t_def)
  have t: "t = rev (dropWhile isspace (rev t)) @ rev (takeWhile isspace (rev t))"
    by (metis rev_append rev_rev_ident takeWhile_dropWhile_id)
  have p1: "list_all isspace (takeWhile isspace s)"
    by (simp add: list_all_iff) (meson set_takeWhileD)
  have p2: "list_all isspace (rev (takeWhile isspace (rev t)))"
    by (simp add: list_all_iff) (meson set_takeWhileD)
  have "s = takeWhile isspace s @ strip s @ rev (takeWhile isspace (rev t))"
    using s t by (simp add: strip_def t_def [symmetric])
  with p1 p2 show ?thesis by blast
qed

lemma strip_ends:
  "strip s = [] \<or> (\<not> isspace (hd (strip s)) \<and> \<not> isspace (last (strip s)))"
proof (cases "strip s = []")
  case True
  then show ?thesis by simp
next
  case False
  define t where "t = dropWhile isspace s"
  define u where "u = dropWhile isspace (rev t)"
  have st: "strip s = rev u"
    by (simp add: strip_def t_def u_def)
  with False have un: "u \<noteq> []" by simp
  then have l: "\<not> isspace (hd u)"
    unfolding u_def by (rule hd_dropWhile)
  have la: "last (strip s) = hd u"
    using un by (simp add: st last_rev)
  have tn: "t \<noteq> []"
    using un by (auto simp: u_def)
  then have h: "\<not> isspace (hd t)"
    unfolding t_def by (rule hd_dropWhile)
  have "t = rev u @ rev (takeWhile isspace (rev t))"
    unfolding u_def by (metis rev_append rev_rev_ident takeWhile_dropWhile_id)
  then have "hd t = hd (rev u)"
    using un by (metis hd_append2 rev_is_Nil_conv)
  with h l la st show ?thesis by simp
qed

lemma join_concat:
  "cq \<noteq> [] \<Longrightarrow> join sep cq = hd cq @ concat (map ((@) sep) (tl cq))"
  by (induction sep cq rule: join.induct) simp_all

lemma endswith_single: "endswith s [c] \<longleftrightarrow> s \<noteq> [] \<and> last s = c"
proof (cases s rule: rev_cases)
  case Nil
  then show ?thesis by (simp add: endswith_def)
next
  case (snoc ys y)
  then show ?thesis by (auto simp: endswith_def)
qed

lemma case_two:
  "(case xs of [x, y] \<Rightarrow> A x y | _ \<Rightarrow> B) =
     (if length xs = 2 then A (xs ! 0) (xs ! 1) else B)"
proof (cases xs)
  case Nil
  then show ?thesis by simp
next
  case (Cons x ys)
  note xs = this
  show ?thesis
  proof (cases ys)
    case Nil
    with xs show ?thesis by simp
  next
    case (Cons y zs)
    with xs show ?thesis by (cases zs) simp_all
  qed
qed

lemma dispatch_query:
  "step_query (dispatch P b cd) = location_query (full_question (collected_question b))"
  by (simp add: dispatch_def Let_def)

lemma dispatch_response:
  "step_response (dispatch P b cd) =
     (case split (get_openai_response P
                    (location_query (full_question (collected_question b)))) '','' of
        [city, country] \<Rightarrow> Message (get_weather_forecast P (strip city) (strip country))
      | _ \<Rightarrow> InvalidLocation)"
  by (simp add: dispatch_def Let_def case_two)

text \<open>
  Claim C10. Whenever an iteration of the loop returns, \<open>get_openai_response\<close> has
  been called, and the response is computed from its answer. Its argument is the fixed
  instruction followed by the question. The question is built from the fragments
  collected at that point (with the text of the current segment when it is evaluated
  within the 5 second window): the first fragment followed by every further fragment
  with one space before it, without the white space at its two ends, and with a
  question mark appended unless it already ends with one. So the question always ends
  with a question mark.
\<close>

theorem resolver_question_text:
  assumes "process_segment P sid ct hp (Some raw) b cd = Return r q b1 cd1"
  shows "\<exists>cq pre j post fq.
           cq = (if ct - trigger_time b \<le> 5 then collected_question b @ [strip (lower raw)]
                 else collected_question b)
           \<and> cq \<noteq> []
           \<and> hd cq @ concat (map ((@) '' '') (tl cq)) = pre @ j @ post
           \<and> list_all isspace pre \<and> list_all isspace post
           \<and> (j = [] \<or> (\<not> isspace (hd j) \<and> \<not> isspace (last j)))
           \<and> fq = (if j \<noteq> [] \<and> last j = CHR ''?'' then j else j @ ''?'')
           \<and> last fq = CHR ''?''
           \<and> q = ''Extract the city and country from the following question, comma separate it, it should be the only thing returned: '' @ fq
           \<and> r = (case split (get_openai_response P q) '','' of
                    [city, country] \<Rightarrow>
                      Message (get_weather_forecast P (strip city) (strip country))
                  | _ \<Rightarrow> InvalidLocation)"
proof -
  define cq where "cq = (if ct - trigger_time b \<le> 5
                         then collected_question b @ [strip (lower raw)]
                         else collected_question b)"
  define j where "j = strip (join '' '' cq)"
  define fq where "fq = (if j \<noteq> [] \<and> last j = CHR ''?'' then j else j @ ''?'')"
  define b2 where "b2 = (if ct - trigger_time b \<le> 5
                         then b\<lparr>collected_question := collected_question b @ [strip (lower raw)]\<rparr>
                         else b)"
  from process_segment_Return [OF assms]
  have c: "collect_question P ct False (strip (lower raw)) b cd = Return r q b1 cd1"
    by simp
  have cq2: "collected_question b2 = cq"
    by (simp add: b2_def cq_def)
  from c have ne: "cq \<noteq> []" and d: "dispatch P b2 cd = Return r q b1 cd1"
    by (auto simp: collect_question_def Let_def QUESTION_AGGREGATION_TIME_def cq_def b2_def
        split: if_splits)
  have fqe: "full_question cq = fq"
    by (simp add: full_question_def Let_def j_def fq_def endswith_single)
  have q: "q = location_query fq"
    using dispatch_query [of P b2 cd] d by (simp add: cq2 fqe)
  have r: "r = (case split (get_openai_response P q) '','' of
                    [city, country] \<Rightarrow>
                      Message (get_weather_forecast P (strip city) (strip country))
                  | _ \<Rightarrow> InvalidLocation)"
    using dispatch_response [of P b2 cd] d by (simp add: cq2 fqe q)
  have q': "q = ''Extract the city and country from the following question, comma separate it, it should be the only thing returned: '' @ fq"
    using q by (simp add: location_query_def)
  obtain pre post where dec: "join '' '' cq = pre @ j @ post"
    and pre: "list_all isspace pre" and post: "list_all isspace post"
    using strip_decompose [of "join '' '' cq"] by (auto simp: j_def)
  have ends: "j = [] \<or> (\<not> isspace (hd j) \<and> \<not> isspace (last j))"
    unfolding j_def by (rule strip_ends)
  have lastq: "last fq = CHR ''?''"
    by (simp add: fq_def)
  have dec': "hd cq @ concat (map ((@) '' '') (tl cq)) = pre @ j @ post"
    using dec ne by (simp add: join_concat)
  show ?thesis
    apply (rule exI [of _ cq], rule exI [of _ pre], rule exI [of _ j], rule exI [of _ post],
        rule exI [of _ fq])
    apply (intro conjI)
             apply (rule cq_def)
            apply (rule ne)
           apply (rule dec')
          apply (rule pre)
         apply (rule post)
        apply (rule ends)
       apply (rule fq_def)
      apply (rule lastq)
     apply (rule q')
    apply (rule r)
    done
qed

theorem resolver_question_text_witness:
  "process_segment paris_providers ''s1'' 101 False (Some '' Is it sunny? In Paris '')
     (collecting_since 100 [[]]) no_cooldowns
   = Return (Message ''Sunny in Paris, France'') (location_query ''is it sunny? in paris?'')
       (reset_states (collecting_since 100 [[], ''is it sunny? in paris''])) no_cooldowns
   \<and> (\<exists>cq pre j post fq.
           cq = (if 101 - trigger_time (collecting_since 100 [[]]) \<le> 5
                 then collected_question (collecting_since 100 [[]])
                      @ [strip (lower '' Is it sunny? In Paris '')]
                 else collected_question (collecting_since 100 [[]]))
           \<and> cq \<noteq> []
           \<and> hd cq @ concat (map ((@) '' '') (tl cq)) = pre @ j @ post
           \<and> list_all isspace pre \<and> list_all isspace post
           \<and> (j = [] \<or> (\<not> isspace (hd j) \<and> \<not> isspace (last j)))
           \<and> fq = (if j \<noteq> [] \<and> last j = CHR ''?'' then j else j @ ''?'')
           \<and> last fq = CHR ''?''
           \<and> location_query ''is it sunny? in paris?'' = ''Extract the city and country from the following question, comma separate it, it should be the only thing returned: '' @ fq
           \<and> Message ''Sunny in Paris, France''
               = (case split (get_openai_response paris_providers
                                (location_query ''is it sunny? in paris?'')) '','' of
                    [city, country] \<Rightarrow>
                      Message (get_weather_forecast paris_providers (strip city) (strip country))
                  | _ \<Rightarrow> InvalidLocation))"
proof -
  have t: "strip (lower '' Is it sunny? In Paris '') = ''is it sunny? in paris''"
    and c: "contains ''?'' ''is it sunny? in paris''"
    and f: "full_question [[], ''is it sunny? in paris''] = ''is it sunny? in paris?''"
    and sp: "split ''Paris, France'' '','' = [''Paris'', '' France'']"
    and s1: "strip ''Paris'' = ''Paris''" and s2: "strip '' France'' = ''France''"
    by code_simp+
  have h: "process_segment paris_providers ''s1'' 101 False (Some '' Is it sunny? In Paris '')
     (collecting_since 100 [[]]) no_cooldowns
   = Return (Message ''Sunny in Paris, France'') (location_query ''is it sunny? in paris?'')
       (reset_states (collecting_since 100 [[], ''is it sunny? in paris''])) no_cooldowns"
    using t c f sp s1 s2
    by (simp add: process_segment_triggered collect_question_def should_process_def
        dispatch_def collecting_since_def fresh_buffer_def paris_providers_def
        reset_states_def QUESTION_AGGREGATION_TIME_def Let_def)
  from h resolver_question_text [OF h] show ?thesis by (rule conjI)
qed

text \<open>
  The test on line 260 asks for a non-empty \<open>collected_question\<close> besides
  \<open>should_process\<close>. Under it the third disjunct of \<open>should_process\<close>, the forced
  closure after 1.5 times the window, decides nothing: what remains is the first two.
\<close>

lemma should_process_guarded:
  "(should_process t cq text \<and> cq \<noteq> []) \<longleftrightarrow> (cq \<noteq> [] \<and> (t > 5 \<or> contains ''?'' text))"
  by (auto simp: should_process_def QUESTION_AGGREGATION_TIME_def)

text \<open>
  Claim C2, evaluated. \<open>hey omi\<close> at reading 100 confirms the trigger and nothing is
  collected. A request at reading 111, more than 7.5 seconds later and beyond the
  cooldown, is answered with success: \<open>get_openai_response\<close> is not called and the
  record keeps its trigger and its empty question. The record stays so: at reading 200 a
  new complete trigger phrase with a question changes nothing but \<open>last_activity\<close>.
\<close>

theorem forced_closure_never_dispatches:
  "fst (webhook silent_providers (delivery ''s1'' [''hello'']) (at_time 111)
          (run (initial_state 0) [(silent_providers, delivery ''s1'' [''hey omi''], at_time 100)]))
     = Success
   \<and> fst (snd (webhook silent_providers (delivery ''s1'' [''hello'']) (at_time 111)
          (run (initial_state 0) [(silent_providers, delivery ''s1'' [''hey omi''], at_time 100)])))
     = None
   \<and> session (run (initial_state 0)
         [(silent_providers, delivery ''s1'' [''hey omi''], at_time 100),
          (silent_providers, delivery ''s1'' [''hello''], at_time 111)]) ''s1''
     = Some ((collecting_since 100 [])\<lparr>last_activity := 111\<rparr>)
   \<and> fst (webhook silent_providers
          (delivery ''s1'' [''hey omi, what is the weather in paris?'']) (at_time 200)
          (run (initial_state 0)
             [(silent_providers, delivery ''s1'' [''hey omi''], at_time 100),
              (silent_providers, delivery ''s1'' [''hello''], at_time 111)]))
     = Success
   \<and> fst (snd (webhook silent_providers
          (delivery ''s1'' [''hey omi, what is the weather in paris?'']) (at_time 200)
          (run (initial_state 0)
             [(silent_providers, delivery ''s1'' [''hey omi''], at_time 100),
              (silent_providers, delivery ''s1'' [''hello''], at_time 111)])))
     = None
   \<and> session (run (initial_state 0)
         [(silent_providers, delivery ''s1'' [''hey omi''], at_time 100),
          (silent_providers, delivery ''s1'' [''hello''], at_time 111),
          (silent_providers, delivery ''s1'' [''hey omi, what is the weather in paris?''],
             at_time 200)]) ''s1''
     = Some ((collecting_since 100 [])\<lparr>last_activity := 200\<rparr>)"
  by code_simp

lemma check_partial_first:
  "\<not> trigger_detected b \<Longrightarrow> ends_first text \<Longrightarrow>
   check_partial ct text b = (True, b\<lparr>partial_trigger := True, partial_trigger_time := ct\<rparr>)"
  by (simp add: check_partial_def)

lemma check_partial_second:
  "\<not> trigger_detected b \<Longrightarrow> \<not> ends_first text \<Longrightarrow> partial_trigger b \<Longrightarrow>
   ct - partial_trigger_time b \<le> 2 \<Longrightarrow> has_second text \<Longrightarrow>
   check_partial ct text b =
     (True, b\<lparr>trigger_detected := True, trigger_time := ct,
               collected_question := (if question_part text \<noteq> [] then [question_part text] else []),
               response_sent := False, partial_trigger := False\<rparr>)"
  by (simp add: check_partial_def Let_def)

lemma check_partial_late:
  "\<not> trigger_detected b \<Longrightarrow> \<not> ends_first text \<Longrightarrow> partial_trigger b \<Longrightarrow>
   ct - partial_trigger_time b > 2 \<Longrightarrow>
   check_partial ct text b = (False, b\<lparr>partial_trigger := False\<rparr>)"
  by (simp add: check_partial_def Let_def)

lemma complete_trigger_buffer:
  "step_buffer (complete_trigger sid ct text b cd) =
     b\<lparr>trigger_detected := True, trigger_time := ct,
       collected_question := (if question_part text \<noteq> [] then [question_part text] else []),
       response_sent := False, partial_trigger := False\<rparr>"
  by (simp add: complete_trigger_def Let_def)

text \<open>
  Claim C8, as the code has it. On a record without a trigger, a segment that contains no
  complete trigger phrase and ends with a first part sets \<open>partial_trigger\<close> and
  \<open>partial_trigger_time\<close> and nothing else. A following segment that contains a
  second part and does not end with a first part confirms the trigger when it is
  evaluated at most 2 seconds later; evaluated later than that, and containing no
  complete trigger phrase, it only clears \<open>partial_trigger\<close>.
\<close>

theorem split_wake_phrase:
  assumes "\<not> trigger_detected b"
    and "\<not> has_trigger (strip (lower raw1))" and "ends_first (strip (lower raw1))"
    and "has_second (strip (lower raw2))" and "\<not> ends_first (strip (lower raw2))"
  shows "(let b1 = b\<lparr>partial_trigger := True, partial_trigger_time := t\<rparr>;
              text2 = strip (lower raw2);
              s2 = process_segment P sid u False (Some raw2) b1 cd
          in process_segment P sid t False (Some raw1) b cd = Continue b1 cd
             \<and> (u - t \<le> 2 \<longrightarrow>
                  step_buffer s2 =
                    b1\<lparr>trigger_detected := True, trigger_time := u,
                       collected_question :=
                         (if question_part text2 \<noteq> [] then [question_part text2] else []),
                       response_sent := False, partial_trigger := False\<rparr>)
             \<and> (u - t > 2 \<and> \<not> has_trigger text2 \<longrightarrow>
                  s2 = Continue (b1\<lparr>partial_trigger := False\<rparr>) cd))"
proof -
  define b1 where "b1 = b\<lparr>partial_trigger := True, partial_trigger_time := t\<rparr>"
  define text2 where "text2 = strip (lower raw2)"
  have r1: "raw1 \<noteq> []" using assms(3) by (rule ends_first_nonempty)
  have r2: "raw2 \<noteq> []" using assms(4) by (rule has_second_nonempty)
  have n1: "\<not> trigger_detected b1" and p1: "partial_trigger b1"
    and pt1: "partial_trigger_time b1 = t"
    using assms(1) by (simp_all add: b1_def)
  have first: "process_segment P sid t False (Some raw1) b cd = Continue b1 cd"
    using assms(1-3) r1
    by (simp add: process_segment_untriggered check_partial_first b1_def)
  have early: "step_buffer (process_segment P sid u False (Some raw2) b1 cd) =
                 b1\<lparr>trigger_detected := True, trigger_time := u,
                    collected_question :=
                      (if question_part text2 \<noteq> [] then [question_part text2] else []),
                    response_sent := False, partial_trigger := False\<rparr>"
    if "u - t \<le> 2"
  proof (cases "has_trigger text2")
    case True
    then show ?thesis
      using n1 r2
      by (simp add: process_segment_complete complete_trigger_buffer text2_def)
  next
    case False
    then show ?thesis
      using n1 p1 pt1 that r2 assms(4,5)
      by (simp add: process_segment_untriggered check_partial_second text2_def)
  qed
  have late: "process_segment P sid u False (Some raw2) b1 cd
                = Continue (b1\<lparr>partial_trigger := False\<rparr>) cd"
    if "u - t > 2" and "\<not> has_trigger text2"
    using n1 p1 pt1 that r2 assms(5)
    by (simp add: process_segment_untriggered check_partial_late text2_def)
  show ?thesis
    using first early late by (simp add: Let_def b1_def text2_def)
qed

theorem split_wake_phrase_witness:
  "\<not> trigger_detected (fresh_buffer 100)
   \<and> \<not> has_trigger (strip (lower ''Hey'')) \<and> ends_first (strip (lower ''Hey''))
   \<and> has_second (strip (lower ''Omi'')) \<and> \<not> ends_first (strip (lower ''Omi''))
   \<and> process_segment silent_providers ''s1'' 100 False (Some ''Hey'') (fresh_buffer 100) no_cooldowns
      = Continue ((fresh_buffer 100)\<lparr>partial_trigger := True, partial_trigger_time := 100\<rparr>)
          no_cooldowns
   \<and> step_buffer (process_segment silent_providers ''s1'' 102 False (Some ''Omi'')
        ((fresh_buffer 100)\<lparr>partial_trigger := True, partial_trigger_time := 100\<rparr>) no_cooldowns)
      = (collecting_since 102 [])\<lparr>partial_trigger_time := 100, last_activity := 100\<rparr>
   \<and> process_segment silent_providers ''s1'' 103 False (Some ''Omi'')
        ((fresh_buffer 100)\<lparr>partial_trigger := True, partial_trigger_time := 100\<rparr>) no_cooldowns
      = Continue ((fresh_buffer 100)\<lparr>partial_trigger_time := 100\<rparr>) no_cooldowns"
proof -
  have h1: "\<not> trigger_detected (fresh_buffer 100)"
    by (simp add: fresh_buffer_def)
  have h3: "\<not> has_trigger (strip (lower ''Hey''))" and h4: "ends_first (strip (lower ''Hey''))"
    and h6: "has_second (strip (lower ''Omi''))" and h7: "\<not> ends_first (strip (lower ''Omi''))"
    and h8: "\<not> has_trigger (strip (lower ''Omi''))"
    and q: "question_part (strip (lower ''Omi'')) = []"
    by code_simp+
  show ?thesis
    using h1 h3 h4 h6 h7 h8 q
      split_wake_phrase [OF h1 h3 h4 h6 h7, where P = silent_providers and sid = "''s1''"
        and t = 100 and cd = no_cooldowns and u = 102]
      split_wake_phrase [OF h1 h3 h4 h6 h7, where P = silent_providers and sid = "''s1''"
        and t = 100 and cd = no_cooldowns and u = 103]
    by (simp add: Let_def collecting_since_def fresh_buffer_def)
qed

text \<open>
  Claim C8 as stated fails: the segment \<open>hey omi, hey\<close> ends with the first part
  \<open>hey\<close>, but it contains a complete trigger phrase, and that branch comes first. The
  trigger is confirmed, \<open>partial_trigger\<close> stays false, and the text after
  \<open>omi,\<close> is collected as question text.
\<close>

theorem split_wake_phrase_counterexample:
  "\<not> trigger_detected (fresh_buffer 100)
   \<and> ends_first (strip (lower ''hey omi, hey''))
   \<and> process_segment silent_providers ''s1'' 100 False (Some ''hey omi, hey'')
        (fresh_buffer 100) no_cooldowns
      = Continue (collecting_since 100 [''hey'']) (no_cooldowns(''s1'' := 100))"
proof -
  have t: "strip (lower ''hey omi, hey'') = ''hey omi, hey''"
    and h: "has_trigger ''hey omi, hey''"
    and e: "ends_first ''hey omi, hey''"
    and q: "question_part ''hey omi, hey'' = ''hey''"
    by code_simp+
  show ?thesis
    using t h e q
    by (simp add: process_segment_complete complete_trigger_def collecting_since_def
        fresh_buffer_def Let_def)
qed

text \<open>
  Claim C4, evaluated. \<open>hey\<close> at reading 100 and \<open>omi\<close> at reading 101 confirm the
  trigger through the partial branch: the record is the one the complete phrase gives at
  101 (but for \<open>partial_trigger_time\<close>), while \<open>notification_cooldowns\<close> of the
  session is still 0. The complete phrase \<open>hey omi\<close> at 101 sets it to 101.
\<close>

theorem partial_path_skips_cooldown:
  "session (run (initial_state 0)
       [(silent_providers, delivery ''s1'' [''hey''], at_time 100),
        (silent_providers, delivery ''s1'' [''omi''], at_time 101)]) ''s1''
     = Some ((collecting_since 101 [])\<lparr>partial_trigger_time := 100\<rparr>)
   \<and> notification_cooldowns (run (initial_state 0)
       [(silent_providers, delivery ''s1'' [''hey''], at_time 100),
        (silent_providers, delivery ''s1'' [''omi''], at_time 101)]) ''s1'' = 0
   \<and> session (run (initial_state 0)
       [(silent_providers, delivery ''s1'' [''hey omi''], at_time 101)]) ''s1''
     = Some (collecting_since 101 [])
   \<and> notification_cooldowns (run (initial_state 0)
       [(silent_providers, delivery ''s1'' [''hey omi''], at_time 101)]) ''s1'' = 101"
  by code_simp

section \<open>The handler\<close>

lemma step_outcome_None: "step_outcome s = (None, b) \<longleftrightarrow> (\<exists>c. s = Continue b c)"
  by (cases s) (simp_all add: step_outcome_def)

lemma step_outcome_Some:
  "step_outcome s = (Some (r, q), b) \<longleftrightarrow> (\<exists>c. s = Return r q b c)"
  by (cases s) (simp_all add: step_outcome_def)

lemma process_segment_outcome:
  "step_outcome (process_segment P sid ct hp seg b cd') =
   step_outcome (process_segment P sid ct hp seg b cd)"
  by (simp add: step_outcome_def process_segment_def complete_trigger_def
      collect_question_def dispatch_def Let_def split: option.splits prod.splits bool.splits)

lemma process_segments_outcome:
  "step_outcome (process_segments P sid ct hp segs b cd') =
   step_outcome (process_segments P sid ct hp segs b cd)"
proof (induction segs arbitrary: b cd cd')
  case Nil
  show ?case by (simp add: step_outcome_def)
next
  case (Cons seg segs)
  show ?case
  proof (cases "process_segment P sid ct hp seg b cd")
    case (Continue b1 cd1)
    have "step_outcome (process_segment P sid ct hp seg b cd') =
          step_outcome (process_segment P sid ct hp seg b cd)"
      by (rule process_segment_outcome)
    also have "\<dots> = (None, b1)"
      using Continue by (simp add: step_outcome_def)
    finally have "step_outcome (process_segment P sid ct hp seg b cd') = (None, b1)" .
    then obtain c where "process_segment P sid ct hp seg b cd' = Continue b1 c"
      by (auto simp: step_outcome_None)
    with Continue Cons.IH [of b1 c cd1] show ?thesis by simp
  next
    case (Return r q b1 cd1)
    have "step_outcome (process_segment P sid ct hp seg b cd') =
          step_outcome (process_segment P sid ct hp seg b cd)"
      by (rule process_segment_outcome)
    also have "\<dots> = (Some (r, q), b1)"
      using Return by (simp add: step_outcome_def)
    finally have "step_outcome (process_segment P sid ct hp seg b cd') = (Some (r, q), b1)" .
    then obtain c where "process_segment P sid ct hp seg b cd' = Return r q b1 c"
      by (auto simp: step_outcome_Some)
    with Return show ?thesis by (simp add: step_outcome_def)
  qed
qed

lemma get_buffer_stored:
  assumes "distinct (map fst (buffers mb))" and "map_of (buffers mb) sid = Some b"
    and "t - last_cleanup mb > cleanup_interval mb \<longrightarrow> ts - last_activity b \<le> 3600"
  shows "fst (get_buffer mb sid t ts) = b\<lparr>last_activity := t\<rparr>"
proof -
  define mb1 where "mb1 = (if t - last_cleanup mb > cleanup_interval mb
                           then cleanup_old_sessions mb ts else mb)"
  have "map_of (buffers mb1) sid = Some b"
  proof (cases "t - last_cleanup mb > cleanup_interval mb")
    case True
    with assms(3) have "\<not> ts - last_activity b > 3600" by simp
    from map_of_cleanup_keep [OF assms(1) assms(2) this] True
    show ?thesis by (simp add: mb1_def)
  next
    case False
    with assms(2) show ?thesis by (simp add: mb1_def)
  qed
  then show ?thesis by (simp add: get_buffer_eq mb1_def Let_def)
qed

lemma session_stored:
  "session \<lparr>message_buffer = store_buffer sid b mb, notification_cooldowns = cd\<rparr> sid = Some b"
  by (simp add: session_def map_of_store_buffer)

lemma session_get_buffer:
  "session (st\<lparr>message_buffer := snd (get_buffer (message_buffer st) sid t ts)\<rparr>) sid
     = Some (fst (get_buffer (message_buffer st) sid t ts))"
  by (simp add: session_def get_buffer_eq Let_def map_of_store_buffer)

lemma webhook_eq:
  assumes "sid \<noteq> []"
  shows "webhook P \<lparr>session_id = Some sid, segments = segs\<rparr> clk st =
     (let b0 = fst (get_buffer (message_buffer st) sid (get_buffer_time clk) (cleanup_time clk));
          mb0 = snd (get_buffer (message_buffer st) sid (get_buffer_time clk) (cleanup_time clk))
      in if trigger_detected b0 \<and> \<not> response_sent b0
            \<and> webhook_time clk - notification_cooldowns st sid < 10
         then (Success, None, st\<lparr>message_buffer := mb0\<rparr>)
         else (case process_segments P sid (webhook_time clk) False segs b0
                      (notification_cooldowns st) of
                 Continue b1 cd1 \<Rightarrow>
                   (Success, None,
                    \<lparr>message_buffer = store_buffer sid b1 mb0, notification_cooldowns = cd1\<rparr>)
               | Return r q b1 cd1 \<Rightarrow>
                   (r, Some q,
                    \<lparr>message_buffer = store_buffer sid b1 mb0, notification_cooldowns = cd1\<rparr>)))"
  using assms
  by (simp add: webhook_def Let_def NOTIFICATION_COOLDOWN_def case_prod_beta)

lemma webhook_stored:
  assumes "sid \<noteq> []"
    and "distinct (map fst (buffers (message_buffer st)))"
    and "map_of (buffers (message_buffer st)) sid = Some b"
    and "get_buffer_time clk - last_cleanup (message_buffer st) > cleanup_interval (message_buffer st)
         \<longrightarrow> cleanup_time clk - last_activity b \<le> 3600"
  shows "webhook P \<lparr>session_id = Some sid, segments = segs\<rparr> clk st =
     (if trigger_detected b \<and> \<not> response_sent b
            \<and> webhook_time clk - notification_cooldowns st sid < 10
      then (Success, None, st\<lparr>message_buffer :=
              snd (get_buffer (message_buffer st) sid (get_buffer_time clk) (cleanup_time clk))\<rparr>)
      else (case process_segments P sid (webhook_time clk) False segs
                   (b\<lparr>last_activity := get_buffer_time clk\<rparr>) (notification_cooldowns st) of
              Continue b1 cd1 \<Rightarrow>
                (Success, None,
                 \<lparr>message_buffer = store_buffer sid b1
                    (snd (get_buffer (message_buffer st) sid (get_buffer_time clk) (cleanup_time clk))),
                  notification_cooldowns = cd1\<rparr>)
            | Return r q b1 cd1 \<Rightarrow>
                (r, Some q,
                 \<lparr>message_buffer = store_buffer sid b1
                    (snd (get_buffer (message_buffer st) sid (get_buffer_time clk) (cleanup_time clk))),
                  notification_cooldowns = cd1\<rparr>)))"
proof -
  have b0: "fst (get_buffer (message_buffer st) sid (get_buffer_time clk) (cleanup_time clk))
              = b\<lparr>last_activity := get_buffer_time clk\<rparr>"
    using assms(2,3,4) by (rule get_buffer_stored)
  show ?thesis
    by (simp add: webhook_eq [OF assms(1)] b0 Let_def)
qed

text \<open>
  Claim C5. Take a stored record of the session that a sweep in this request does not
  remove. When it has a confirmed, unanswered trigger and the reading of \<open>webhook\<close> is
  less than 10 seconds after the cooldown time of the session, the request is answered
  with success whatever its segments are: \<open>get_openai_response\<close> is not called,
  \<open>notification_cooldowns\<close> is unchanged, and the record is unchanged but for
  \<open>last_activity\<close>, which \<open>get_buffer\<close> sets. Otherwise the response and the next
  state are those of the loop over all the segments. The test is made once, before the
  loop: what the loop does with the segments does not depend on
  \<open>notification_cooldowns\<close>, so a trigger confirmed by one segment of the request does
  not keep the following segments from being processed.
\<close>

theorem cooldown_short_circuit:
  assumes "sid \<noteq> []"
    and "distinct (map fst (buffers (message_buffer st)))"
    and "map_of (buffers (message_buffer st)) sid = Some b"
    and "get_buffer_time clk - last_cleanup (message_buffer st) > cleanup_interval (message_buffer st)
         \<longrightarrow> cleanup_time clk - last_activity b \<le> 3600"
  shows "(let ct = webhook_time clk;
              cd = notification_cooldowns st;
              b0 = b\<lparr>last_activity := get_buffer_time clk\<rparr>;
              mb0 = snd (get_buffer (message_buffer st) sid (get_buffer_time clk) (cleanup_time clk));
              res = webhook P \<lparr>session_id = Some sid, segments = segs\<rparr> clk st;
              closed = (trigger_detected b \<and> \<not> response_sent b \<and> ct - cd sid < 10)
          in (closed \<longrightarrow>
                res = (Success, None, st\<lparr>message_buffer := mb0\<rparr>)
                \<and> session (snd (snd res)) sid = Some b0)
             \<and> (\<not> closed \<longrightarrow>
                  res = (case process_segments P sid ct False segs b0 cd of
                           Continue b1 cd1 \<Rightarrow>
                             (Success, None,
                              \<lparr>message_buffer = store_buffer sid b1 mb0,
                               notification_cooldowns = cd1\<rparr>)
                         | Return r q b1 cd1 \<Rightarrow>
                             (r, Some q,
                              \<lparr>message_buffer = store_buffer sid b1 mb0,
                               notification_cooldowns = cd1\<rparr>)))
             \<and> (\<forall>cd'. step_outcome (process_segments P sid ct False segs b0 cd')
                        = step_outcome (process_segments P sid ct False segs b0 cd)))"
proof -
  have b0: "fst (get_buffer (message_buffer st) sid (get_buffer_time clk) (cleanup_time clk))
              = b\<lparr>last_activity := get_buffer_time clk\<rparr>"
    using assms(2,3,4) by (rule get_buffer_stored)
  have s: "session (st\<lparr>message_buffer :=
                snd (get_buffer (message_buffer st) sid (get_buffer_time clk) (cleanup_time clk))\<rparr>)
              sid = Some (b\<lparr>last_activity := get_buffer_time clk\<rparr>)"
    using session_get_buffer [of st sid "get_buffer_time clk" "cleanup_time clk"] b0 by simp
  have indep: "\<forall>cd'. step_outcome (process_segments P sid (webhook_time clk) False segs
                    (b\<lparr>last_activity := get_buffer_time clk\<rparr>) cd')
                 = step_outcome (process_segments P sid (webhook_time clk) False segs
                    (b\<lparr>last_activity := get_buffer_time clk\<rparr>) (notification_cooldowns st))"
    by (rule allI) (rule process_segments_outcome)
  note main = webhook_stored [OF assms, of P segs]
  show ?thesis
    unfolding Let_def
    using s indep by (simp add: main)
qed

theorem cooldown_short_circuit_witness:
  "session (run (initial_state 0) [(paris_providers, delivery ''s1'' [''hey omi''], at_time 100)]) ''s1''
     = Some (collecting_since 100 [])
   \<and> 101 - notification_cooldowns
        (run (initial_state 0) [(paris_providers, delivery ''s1'' [''hey omi''], at_time 100)]) ''s1'' < 10
   \<and> fst (webhook paris_providers (delivery ''s1'' [''what is the weather in Paris?''])
        (at_time 101)
        (run (initial_state 0) [(paris_providers, delivery ''s1'' [''hey omi''], at_time 100)]))
     = Success
   \<and> fst (snd (webhook paris_providers (delivery ''s1'' [''what is the weather in Paris?''])
        (at_time 101)
        (run (initial_state 0) [(paris_providers, delivery ''s1'' [''hey omi''], at_time 100)])))
     = None
   \<and> session (snd (snd (webhook paris_providers (delivery ''s1'' [''what is the weather in Paris?''])
        (at_time 101)
        (run (initial_state 0) [(paris_providers, delivery ''s1'' [''hey omi''], at_time 100)]))))
        ''s1''
     = Some ((collecting_since 100 [])\<lparr>last_activity := 101\<rparr>)
   \<and> session (run (initial_state 0) [(paris_providers, delivery ''s1'' [''hello''], at_time 50)]) ''s1''
     = Some (fresh_buffer 50)
   \<and> fst (webhook paris_providers
        (delivery ''s1'' [''hey omi'', ''What is the weather in Paris?'']) (at_time 100)
        (run (initial_state 0) [(paris_providers, delivery ''s1'' [''hello''], at_time 50)]))
     = Message ''Sunny in Paris, France''
   \<and> fst (snd (webhook paris_providers
        (delivery ''s1'' [''hey omi'', ''What is the weather in Paris?'']) (at_time 100)
        (run (initial_state 0) [(paris_providers, delivery ''s1'' [''hello''], at_time 50)])))
     = Some (location_query ''what is the weather in paris?'')"
proof -
  define st1 where
    "st1 = run (initial_state 0) [(paris_providers, delivery ''s1'' [''hey omi''], at_time 100)]"
  define st2 where
    "st2 = run (initial_state 0) [(paris_providers, delivery ''s1'' [''hello''], at_time 50)]"
  have n: "''s1'' \<noteq> []" by simp
  have d1: "distinct (map fst (buffers (message_buffer st1)))"
    and d2: "distinct (map fst (buffers (message_buffer st2)))"
    unfolding st1_def st2_def by (rule store_reachable [THEN conjunct1])+
  have l1: "map_of (buffers (message_buffer st1)) ''s1'' = Some (collecting_since 100 [])"
    and l2: "map_of (buffers (message_buffer st2)) ''s1'' = Some (fresh_buffer 50)"
    and c1: "101 - notification_cooldowns st1 ''s1'' < 10"
    and lc1: "last_cleanup (message_buffer st1) = 0" "cleanup_interval (message_buffer st1) = 300"
    and lc2: "last_cleanup (message_buffer st2) = 0" "cleanup_interval (message_buffer st2) = 300"
    unfolding st1_def st2_def by code_simp+
  have e1: "get_buffer_time (at_time 101) - last_cleanup (message_buffer st1)
              > cleanup_interval (message_buffer st1)
            \<longrightarrow> cleanup_time (at_time 101) - last_activity (collecting_since 100 []) \<le> 3600"
    and e2: "get_buffer_time (at_time 100) - last_cleanup (message_buffer st2)
              > cleanup_interval (message_buffer st2)
            \<longrightarrow> cleanup_time (at_time 100) - last_activity (fresh_buffer 50) \<le> 3600"
    by (simp_all add: at_time_def collecting_since_def fresh_buffer_def)
  define segs1 where "segs1 = map Some [''what is the weather in Paris?'']"
  define segs2 where "segs2 = map Some [''hey omi'', ''What is the weather in Paris?'']"
  define b2 where "b2 = (fresh_buffer 50)\<lparr>last_activity := get_buffer_time (at_time 100)\<rparr>"
  have q1: "delivery ''s1'' [''what is the weather in Paris?'']
              = \<lparr>session_id = Some ''s1'', segments = segs1\<rparr>"
    and q2: "delivery ''s1'' [''hey omi'', ''What is the weather in Paris?'']
              = \<lparr>session_id = Some ''s1'', segments = segs2\<rparr>"
    by (simp_all add: delivery_def segs1_def segs2_def)
  have g: "trigger_detected (collecting_since 100 []) \<and> \<not> response_sent (collecting_since 100 [])
           \<and> webhook_time (at_time 101) - notification_cooldowns st1 ''s1'' < 10"
    using c1 by (simp add: collecting_since_def fresh_buffer_def at_time_def)
  note T = cooldown_short_circuit [OF n d1 l1 e1, where P = paris_providers and segs = segs1,
      unfolded Let_def]
  note R = T [THEN conjunct1, THEN mp, OF g]
  have f1: "fst (webhook paris_providers \<lparr>session_id = Some ''s1'', segments = segs1\<rparr>
                   (at_time 101) st1) = Success"
    and f2: "fst (snd (webhook paris_providers \<lparr>session_id = Some ''s1'', segments = segs1\<rparr>
                   (at_time 101) st1)) = None"
    by (simp_all add: R [THEN conjunct1])
  have f3: "session (snd (snd (webhook paris_providers
                   \<lparr>session_id = Some ''s1'', segments = segs1\<rparr> (at_time 101) st1))) ''s1''
              = Some ((collecting_since 100 [])\<lparr>last_activity := 101\<rparr>)"
    using R [THEN conjunct2] by (simp add: at_time_def)
  have ng: "\<not> (trigger_detected (fresh_buffer 50) \<and> \<not> response_sent (fresh_buffer 50)
               \<and> webhook_time (at_time 100) - notification_cooldowns st2 ''s1'' < 10)"
    by (simp add: fresh_buffer_def)
  have o: "step_outcome (process_segments paris_providers ''s1'' (webhook_time (at_time 100)) False
              segs2 b2 (notification_cooldowns st2))
           = (Some (Message ''Sunny in Paris, France'',
                    location_query ''what is the weather in paris?''),
              reset_states ((collecting_since 100 [''what is the weather in paris?''])
                 \<lparr>last_activity := 100\<rparr>))"
    unfolding st2_def segs2_def b2_def by code_simp
  then obtain c where ps: "process_segments paris_providers ''s1'' (webhook_time (at_time 100))
              False segs2 b2 (notification_cooldowns st2)
           = Return (Message ''Sunny in Paris, France'')
               (location_query ''what is the weather in paris?'')
               (reset_states ((collecting_since 100 [''what is the weather in paris?''])
                 \<lparr>last_activity := 100\<rparr>)) c"
    by (auto simp: step_outcome_Some)
  note U = cooldown_short_circuit [OF n d2 l2 e2, where P = paris_providers and segs = segs2,
      unfolded Let_def, folded b2_def]
  note V = U [THEN conjunct2, THEN conjunct1, THEN mp, OF ng]
  have f4: "fst (webhook paris_providers \<lparr>session_id = Some ''s1'', segments = segs2\<rparr>
                   (at_time 100) st2) = Message ''Sunny in Paris, France''"
    and f5: "fst (snd (webhook paris_providers \<lparr>session_id = Some ''s1'', segments = segs2\<rparr>
                   (at_time 100) st2)) = Some (location_query ''what is the weather in paris?'')"
    by (simp_all add: V ps)
  show ?thesis
    unfolding q1 q2 st1_def [symmetric] st2_def [symmetric]
    using l1 l2 c1 f1 f2 f3 f4 f5
    by (simp add: session_def)
qed

lemma process_segments_single:
  "process_segments P sid ct hp [seg] b cd = process_segment P sid ct hp seg b cd"
  by (cases "process_segment P sid ct hp seg b cd") simp_all

lemma collecting_segment:
  assumes "trigger_detected b" and "\<not> response_sent b" and "raw \<noteq> []"
  shows "(let text = strip (lower raw);
              s = process_segment P sid ct False (Some raw) b cd;
              b1 = (if ct - trigger_time b \<le> 5
                    then b\<lparr>collected_question := collected_question b @ [text]\<rparr> else b)
          in step_cooldowns s = cd
             \<and> (case s of
                  Continue b2 cd2 \<Rightarrow> b2 = b1
                | Return r q b2 cd2 \<Rightarrow>
                    q = location_query (full_question (collected_question b1))
                    \<and> (b2 = b1 \<or> b2 = reset_states b1)))"
  using assms
  by (simp add: process_segment_triggered collect_question_def dispatch_def
      QUESTION_AGGREGATION_TIME_def Let_def)

text \<open>
  Claim C9, as the code has it. On a record with a confirmed and unanswered trigger, a
  segment that contains a complete trigger phrase and is evaluated by the loop is handled
  as question text: \<open>notification_cooldowns\<close> is left as it is, and the record is
  neither given a new \<open>trigger_time\<close> nor emptied by the trigger branch. Evaluated
  within the 5 second window the text is appended to \<open>collected_question\<close>; the
  iteration then either continues with that record, or sends the question built from it
  and returns with that record, reset when a location was extracted. The same holds of a
  request with this one segment, when the reading of \<open>webhook\<close> is not less than 10
  seconds after the cooldown time of the session.
\<close>

theorem wake_phrase_while_collecting:
  assumes "trigger_detected b" and "\<not> response_sent b"
    and "has_trigger (strip (lower raw))"
  shows "(let text = strip (lower raw);
              s = process_segment P sid ct False (Some raw) b cd;
              b1 = (if ct - trigger_time b \<le> 5
                    then b\<lparr>collected_question := collected_question b @ [text]\<rparr> else b)
          in step_cooldowns s = cd
             \<and> (case s of
                  Continue b2 cd2 \<Rightarrow> b2 = b1
                | Return r q b2 cd2 \<Rightarrow>
                    q = location_query (full_question (collected_question b1))
                    \<and> (b2 = b1 \<or> b2 = reset_states b1)))
         \<and> (sid \<noteq> [] \<and> distinct (map fst (buffers (message_buffer st)))
              \<and> map_of (buffers (message_buffer st)) sid = Some b
              \<and> (get_buffer_time clk - last_cleanup (message_buffer st)
                    > cleanup_interval (message_buffer st)
                  \<longrightarrow> cleanup_time clk - last_activity b \<le> 3600)
              \<and> \<not> webhook_time clk - notification_cooldowns st sid < 10
             \<longrightarrow>
              (let text = strip (lower raw);
                   b0 = b\<lparr>last_activity := get_buffer_time clk\<rparr>;
                   b1 = (if webhook_time clk - trigger_time b \<le> 5
                         then b0\<lparr>collected_question := collected_question b @ [text]\<rparr> else b0);
                   res = webhook P \<lparr>session_id = Some sid, segments = [Some raw]\<rparr> clk st
               in notification_cooldowns (snd (snd res)) = notification_cooldowns st
                  \<and> ((fst res = Success \<and> fst (snd res) = None
                        \<and> session (snd (snd res)) sid = Some b1)
                      \<or> (fst (snd res)
                            = Some (location_query (full_question (collected_question b1)))
                          \<and> (session (snd (snd res)) sid = Some b1
                              \<or> session (snd (snd res)) sid = Some (reset_states b1))))))"
proof (rule conjI)
  have raw: "raw \<noteq> []" using assms(3) by (rule has_trigger_nonempty)
  show "(let text = strip (lower raw);
              s = process_segment P sid ct False (Some raw) b cd;
              b1 = (if ct - trigger_time b \<le> 5
                    then b\<lparr>collected_question := collected_question b @ [text]\<rparr> else b)
          in step_cooldowns s = cd
             \<and> (case s of
                  Continue b2 cd2 \<Rightarrow> b2 = b1
                | Return r q b2 cd2 \<Rightarrow>
                    q = location_query (full_question (collected_question b1))
                    \<and> (b2 = b1 \<or> b2 = reset_states b1)))"
    using assms(1,2) raw by (rule collecting_segment)
  show "sid \<noteq> [] \<and> distinct (map fst (buffers (message_buffer st)))
              \<and> map_of (buffers (message_buffer st)) sid = Some b
              \<and> (get_buffer_time clk - last_cleanup (message_buffer st)
                    > cleanup_interval (message_buffer st)
                  \<longrightarrow> cleanup_time clk - last_activity b \<le> 3600)
              \<and> \<not> webhook_time clk - notification_cooldowns st sid < 10
             \<longrightarrow>
              (let text = strip (lower raw);
                   b0 = b\<lparr>last_activity := get_buffer_time clk\<rparr>;
                   b1 = (if webhook_time clk - trigger_time b \<le> 5
                         then b0\<lparr>collected_question := collected_question b @ [text]\<rparr> else b0);
                   res = webhook P \<lparr>session_id = Some sid, segments = [Some raw]\<rparr> clk st
               in notification_cooldowns (snd (snd res)) = notification_cooldowns st
                  \<and> ((fst res = Success \<and> fst (snd res) = None
                        \<and> session (snd (snd res)) sid = Some b1)
                      \<or> (fst (snd res)
                            = Some (location_query (full_question (collected_question b1)))
                          \<and> (session (snd (snd res)) sid = Some b1
                              \<or> session (snd (snd res)) sid = Some (reset_states b1)))))"
  proof
    assume H: "sid \<noteq> [] \<and> distinct (map fst (buffers (message_buffer st)))
              \<and> map_of (buffers (message_buffer st)) sid = Some b
              \<and> (get_buffer_time clk - last_cleanup (message_buffer st)
                    > cleanup_interval (message_buffer st)
                  \<longrightarrow> cleanup_time clk - last_activity b \<le> 3600)
              \<and> \<not> webhook_time clk - notification_cooldowns st sid < 10"
    define b0 where "b0 = b\<lparr>last_activity := get_buffer_time clk\<rparr>"
    define cd0 where "cd0 = notification_cooldowns st"
    define s where "s = process_segment P sid (webhook_time clk) False (Some raw) b0 cd0"
    define b1 where "b1 = (if webhook_time clk - trigger_time b \<le> 5
                 then b0\<lparr>collected_question := collected_question b @ [strip (lower raw)]\<rparr>
                 else b0)"
    define mb0 where
      "mb0 = snd (get_buffer (message_buffer st) sid (get_buffer_time clk) (cleanup_time clk))"
    have w: "webhook P \<lparr>session_id = Some sid, segments = [Some raw]\<rparr> clk st =
               (case s of
                  Continue b2 cd2 \<Rightarrow>
                    (Success, None,
                     \<lparr>message_buffer = store_buffer sid b2 mb0, notification_cooldowns = cd2\<rparr>)
                | Return r q b2 cd2 \<Rightarrow>
                    (r, Some q,
                     \<lparr>message_buffer = store_buffer sid b2 mb0, notification_cooldowns = cd2\<rparr>))"
    proof -
      note w0 = webhook_stored [OF H [THEN conjunct1] H [THEN conjunct2, THEN conjunct1]
          H [THEN conjunct2, THEN conjunct2, THEN conjunct1]
          H [THEN conjunct2, THEN conjunct2, THEN conjunct2, THEN conjunct1],
          of P "[Some raw]"]
      have open_gate: "\<not> (trigger_detected b \<and> \<not> response_sent b
                 \<and> webhook_time clk - notification_cooldowns st sid < 10)"
        using H by simp
      show ?thesis
        unfolding w0 process_segments_single s_def b0_def cd0_def mb0_def
        using open_gate by (rule if_not_P)
    qed
    have t0: "trigger_detected b0" and r0: "\<not> response_sent b0"
      using assms(1,2) by (simp_all add: b0_def)
    have tt0: "trigger_time b0 = trigger_time b"
      and cq0: "collected_question b0 = collected_question b"
      by (simp_all add: b0_def)
    have L: "step_cooldowns s = cd0
             \<and> (case s of
                  Continue b2 cd2 \<Rightarrow> b2 = b1
                | Return r q b2 cd2 \<Rightarrow>
                    q = location_query (full_question (collected_question b1))
                    \<and> (b2 = b1 \<or> b2 = reset_states b1))"
      using collecting_segment [OF t0 r0 raw, of P sid "webhook_time clk" cd0]
      unfolding Let_def s_def b1_def tt0 cq0 .
    have "notification_cooldowns (snd (snd (webhook P \<lparr>session_id = Some sid,
              segments = [Some raw]\<rparr> clk st))) = cd0
          \<and> ((fst (webhook P \<lparr>session_id = Some sid, segments = [Some raw]\<rparr> clk st) = Success
               \<and> fst (snd (webhook P \<lparr>session_id = Some sid, segments = [Some raw]\<rparr> clk st))
                   = None
               \<and> session (snd (snd (webhook P \<lparr>session_id = Some sid,
                     segments = [Some raw]\<rparr> clk st))) sid = Some b1)
              \<or> (fst (snd (webhook P \<lparr>session_id = Some sid, segments = [Some raw]\<rparr> clk st))
                    = Some (location_query (full_question (collected_question b1)))
                  \<and> (session (snd (snd (webhook P \<lparr>session_id = Some sid,
                         segments = [Some raw]\<rparr> clk st))) sid = Some b1
                      \<or> session (snd (snd (webhook P \<lparr>session_id = Some sid,
                         segments = [Some raw]\<rparr> clk st))) sid = Some (reset_states b1))))"
      unfolding w using L by (cases s) (auto simp: session_stored)
    then show "(let text = strip (lower raw);
                   b0 = b\<lparr>last_activity := get_buffer_time clk\<rparr>;
                   b1 = (if webhook_time clk - trigger_time b \<le> 5
                         then b0\<lparr>collected_question := collected_question b @ [text]\<rparr> else b0);
                   res = webhook P \<lparr>session_id = Some sid, segments = [Some raw]\<rparr> clk st
               in notification_cooldowns (snd (snd res)) = notification_cooldowns st
                  \<and> ((fst res = Success \<and> fst (snd res) = None
                        \<and> session (snd (snd res)) sid = Some b1)
                      \<or> (fst (snd res)
                            = Some (location_query (full_question (collected_question b1)))
                          \<and> (session (snd (snd res)) sid = Some b1
                              \<or> session (snd (snd res)) sid = Some (reset_states b1)))))"
      unfolding Let_def b1_def b0_def cd0_def .
  qed
qed

theorem wake_phrase_while_collecting_witness:
  "trigger_detected (collecting_since 100 [''what is the weather''])
   \<and> \<not> response_sent (collecting_since 100 [''what is the weather''])
   \<and> has_trigger (strip (lower ''hey omi in paris''))
   \<and> process_segment silent_providers ''s1'' 102 False (Some ''hey omi in paris'')
        (collecting_since 100 [''what is the weather'']) no_cooldowns
      = Continue (collecting_since 100 [''what is the weather'', ''hey omi in paris''])
          no_cooldowns
   \<and> session (run (initial_state 0)
         [(silent_providers, delivery ''s1'' [''hey''], at_time 100),
          (silent_providers, delivery ''s1'' [''omi''], at_time 101)]) ''s1''
      = Some ((collecting_since 101 [])\<lparr>partial_trigger_time := 100\<rparr>)
   \<and> \<not> 102 - notification_cooldowns (run (initial_state 0)
         [(silent_providers, delivery ''s1'' [''hey''], at_time 100),
          (silent_providers, delivery ''s1'' [''omi''], at_time 101)]) ''s1'' < 10
   \<and> fst (webhook silent_providers (delivery ''s1'' [''hey omi in paris'']) (at_time 102)
        (run (initial_state 0)
         [(silent_providers, delivery ''s1'' [''hey''], at_time 100),
          (silent_providers, delivery ''s1'' [''omi''], at_time 101)])) = Success
   \<and> session (snd (snd (webhook silent_providers (delivery ''s1'' [''hey omi in paris''])
        (at_time 102)
        (run (initial_state 0)
         [(silent_providers, delivery ''s1'' [''hey''], at_time 100),
          (silent_providers, delivery ''s1'' [''omi''], at_time 101)])))) ''s1''
      = Some ((collecting_since 101 [''hey omi in paris''])
                \<lparr>partial_trigger_time := 100, last_activity := 102\<rparr>)"
proof -
  define st3 where "st3 = run (initial_state 0)
         [(silent_providers, delivery ''s1'' [''hey''], at_time 100),
          (silent_providers, delivery ''s1'' [''omi''], at_time 101)]"
  define b3 where "b3 = (collecting_since 101 [])\<lparr>partial_trigger_time := 100\<rparr>"
  define req where "req = \<lparr>session_id = Some ''s1'', segments = [Some ''hey omi in paris'']\<rparr>"
  have rq: "delivery ''s1'' [''hey omi in paris''] = req"
    by (simp add: delivery_def req_def)
  have t: "strip (lower ''hey omi in paris'') = ''hey omi in paris''"
    and h: "has_trigger (strip (lower ''hey omi in paris''))"
    and c: "\<not> contains ''?'' ''hey omi in paris''"
    by code_simp+
  have a1: "trigger_detected (collecting_since 100 [''what is the weather''])"
    and a2: "\<not> response_sent (collecting_since 100 [''what is the weather''])"
    and a3: "trigger_detected b3" and a4: "\<not> response_sent b3"
    by (simp_all add: collecting_since_def fresh_buffer_def b3_def)
  have s: "process_segment silent_providers ''s1'' 102 False (Some ''hey omi in paris'')
        (collecting_since 100 [''what is the weather'']) no_cooldowns
      = Continue (collecting_since 100 [''what is the weather'', ''hey omi in paris''])
          no_cooldowns"
    using wake_phrase_while_collecting [OF a1 a2 h, where P = silent_providers
        and sid = "''s1''" and ct = 102 and cd = no_cooldowns, THEN conjunct1] t c
    by (simp add: process_segment_triggered collect_question_def should_process_def
        collecting_since_def fresh_buffer_def QUESTION_AGGREGATION_TIME_def Let_def)
  have l3: "map_of (buffers (message_buffer st3)) ''s1'' = Some b3"
    and c3: "\<not> webhook_time (at_time 102) - notification_cooldowns st3 ''s1'' < 10"
    and lc3: "last_cleanup (message_buffer st3) = 0" "cleanup_interval (message_buffer st3) = 300"
    and nq: "fst (snd (webhook silent_providers req (at_time 102) st3)) = None"
    unfolding st3_def b3_def req_def by code_simp+
  have d3: "distinct (map fst (buffers (message_buffer st3)))"
    unfolding st3_def by (rule store_reachable [THEN conjunct1])
  have e3: "get_buffer_time (at_time 102) - last_cleanup (message_buffer st3)
              > cleanup_interval (message_buffer st3)
            \<longrightarrow> cleanup_time (at_time 102) - last_activity b3 \<le> 3600"
    by (simp add: lc3 at_time_def)
  have H: "''s1'' \<noteq> [] \<and> distinct (map fst (buffers (message_buffer st3)))
              \<and> map_of (buffers (message_buffer st3)) ''s1'' = Some b3
              \<and> (get_buffer_time (at_time 102) - last_cleanup (message_buffer st3)
                    > cleanup_interval (message_buffer st3)
                  \<longrightarrow> cleanup_time (at_time 102) - last_activity b3 \<le> 3600)
              \<and> \<not> webhook_time (at_time 102) - notification_cooldowns st3 ''s1'' < 10"
    using d3 l3 e3 c3 by simp
  note T = wake_phrase_while_collecting [OF a3 a4 h, where P = silent_providers
      and sid = "''s1''" and st = st3 and clk = "at_time 102",
      THEN conjunct2, THEN mp, OF H, unfolded Let_def, folded req_def]
  have b1: "(if webhook_time (at_time 102) - trigger_time b3 \<le> 5
             then b3\<lparr>last_activity := get_buffer_time (at_time 102),
                     collected_question :=
                       collected_question b3 @ [strip (lower ''hey omi in paris'')]\<rparr>
             else b3\<lparr>last_activity := get_buffer_time (at_time 102)\<rparr>)
            = (collecting_since 101 [''hey omi in paris''])
                \<lparr>partial_trigger_time := 100, last_activity := 102\<rparr>"
    by (simp add: t at_time_def b3_def collecting_since_def fresh_buffer_def)
  from T nq have "fst (webhook silent_providers req (at_time 102) st3) = Success
      \<and> session (snd (snd (webhook silent_providers req (at_time 102) st3))) ''s1''
          = Some ((collecting_since 101 [''hey omi in paris''])
                \<lparr>partial_trigger_time := 100, last_activity := 102\<rparr>)"
    unfolding b1 by auto
  with a1 a2 h s l3 c3 show ?thesis
    unfolding rq st3_def [symmetric] b3_def [symmetric]
    by (simp add: session_def at_time_def)
qed

text \<open>
  Claim C9 as stated fails: \<open>hey omi, what is\<close> at reading 100 confirms the trigger and
  sets the cooldown time. A request with the segment \<open>hey omi in paris\<close> at reading 102
  is inside the 5 second window, but also inside the cooldown of 10 seconds: it is
  answered with success before any segment is read, and the text is not appended.
\<close>

theorem wake_phrase_later_request_counterexample:
  "session (run (initial_state 0)
       [(silent_providers, delivery ''s1'' [''hey omi, what is''], at_time 100)]) ''s1''
     = Some (collecting_since 100 [''what is''])
   \<and> has_trigger (strip (lower ''hey omi in paris''))
   \<and> 102 - trigger_time (collecting_since 100 [''what is'']) \<le> 5
   \<and> fst (webhook silent_providers (delivery ''s1'' [''hey omi in paris'']) (at_time 102)
        (run (initial_state 0)
           [(silent_providers, delivery ''s1'' [''hey omi, what is''], at_time 100)]))
     = Success
   \<and> session (snd (snd (webhook silent_providers (delivery ''s1'' [''hey omi in paris''])
        (at_time 102)
        (run (initial_state 0)
           [(silent_providers, delivery ''s1'' [''hey omi, what is''], at_time 100)])))) ''s1''
     = Some ((collecting_since 100 [''what is''])\<lparr>last_activity := 102\<rparr>)"
  by code_simp

text \<open>
  Claim C3, as the code has it. When the two segments \<open>hey omi\<close> and
  \<open>What's the weather in Paris France?\<close> arrive in one request for a session \<open>s1\<close>
  without a confirmed trigger, the second is collected as the single fragment
  \<open>what's the weather in paris france?\<close> and \<open>get_openai_response\<close> is called on
  the question built from it; when the answer is \<open>Paris, France\<close> the response is the
  forecast for Paris, France and the record is reset.
\<close>

theorem single_request_end_to_end:
  assumes "case session st ''s1'' of None \<Rightarrow> True | Some b \<Rightarrow> \<not> trigger_detected b"
  shows "(let q = location_query (full_question [''what's the weather in paris france?'']);
              res = webhook P (delivery ''s1'' [''hey omi'', ''What's the weather in Paris France?''])
                      clk st
          in full_question [''what's the weather in paris france?'']
               = ''what's the weather in paris france?''
             \<and> fst (snd res) = Some q
             \<and> (get_openai_response P q = ''Paris, France'' \<longrightarrow>
                  fst res = Message (get_weather_forecast P ''Paris'' ''France'')
                  \<and> (\<exists>b. session (snd (snd res)) ''s1'' = Some b
                         \<and> \<not> trigger_detected b \<and> trigger_time b = 0
                         \<and> collected_question b = [] \<and> response_sent b
                         \<and> \<not> partial_trigger b)))"
proof -
  obtain b mb where gb:
    "get_buffer (message_buffer st) ''s1'' (get_buffer_time clk) (cleanup_time clk) = (b, mb)"
    by (cases "get_buffer (message_buffer st) ''s1'' (get_buffer_time clk) (cleanup_time clk)")
  have nb: "\<not> trigger_detected b"
    using get_buffer_untriggered [of "message_buffer st" "''s1''" "get_buffer_time clk"
        "cleanup_time clk"] assms gb
    by (simp add: session_def)
  define ct where "ct = webhook_time clk"
  define cd where "cd = notification_cooldowns st"
  define b1 where "b1 = b\<lparr>trigger_detected := True, trigger_time := ct, collected_question := [],
                          response_sent := False, partial_trigger := False\<rparr>"
  define b2 where "b2 = b1\<lparr>collected_question := [''what's the weather in paris france?'']\<rparr>"
  have t1: "strip (lower ''hey omi'') = ''hey omi''"
    and h1: "has_trigger ''hey omi''"
    and q1: "question_part ''hey omi'' = []"
    and t2: "strip (lower ''What's the weather in Paris France?'')
               = ''what's the weather in paris france?''"
    and c2: "contains ''?'' ''what's the weather in paris france?''"
    and fq: "full_question [''what's the weather in paris france?'']
               = ''what's the weather in paris france?''"
    and sp: "split ''Paris, France'' '','' = [''Paris'', '' France'']"
    and s1: "strip ''Paris'' = ''Paris''" and s2: "strip '' France'' = ''France''"
    by code_simp+
  have step1: "process_segment P ''s1'' ct False (Some ''hey omi'') b cd
                 = Continue b1 (cd(''s1'' := ct))"
    using nb t1 h1 q1
    by (simp add: process_segment_complete complete_trigger_def b1_def Let_def)
  have step2: "process_segment P ''s1'' ct False (Some ''What's the weather in Paris France?'')
                 b1 (cd(''s1'' := ct)) = dispatch P b2 (cd(''s1'' := ct))"
    using t2 c2
    by (simp add: process_segment_triggered collect_question_def should_process_def
        b1_def b2_def QUESTION_AGGREGATION_TIME_def Let_def)
  have loop: "process_segments P ''s1'' ct False
                [Some ''hey omi'', Some ''What's the weather in Paris France?''] b cd
              = dispatch P b2 (cd(''s1'' := ct))"
    using step1 step2 by (simp add: dispatch_def Let_def)
  define q where "q = location_query (full_question [''what's the weather in paris france?''])"
  have d: "dispatch P b2 (cd(''s1'' := ct)) =
             (if length (split (get_openai_response P q) '','') = 2
              then Return (Message (get_weather_forecast P
                      (strip (split (get_openai_response P q) '','' ! 0))
                      (strip (split (get_openai_response P q) '','' ! 1))))
                     q (reset_states b2) (cd(''s1'' := ct))
              else Return InvalidLocation q b2 (cd(''s1'' := ct)))"
    by (simp add: dispatch_def q_def b2_def Let_def)
  have res: "webhook P (delivery ''s1'' [''hey omi'', ''What's the weather in Paris France?'']) clk st
             = (case dispatch P b2 (cd(''s1'' := ct)) of
                  Continue b3 cd3 \<Rightarrow> (Success, None,
                    \<lparr>message_buffer = store_buffer ''s1'' b3 mb, notification_cooldowns = cd3\<rparr>)
                | Return r q3 b3 cd3 \<Rightarrow> (r, Some q3,
                    \<lparr>message_buffer = store_buffer ''s1'' b3 mb, notification_cooldowns = cd3\<rparr>))"
    using gb nb loop by (simp add: webhook_def delivery_def ct_def cd_def Let_def)
  show ?thesis
    unfolding Let_def q_def [symmetric] res d
    using fq sp s1 s2
    by (auto simp: session_def map_of_store_buffer reset_states_def)
qed

theorem single_request_end_to_end_witness:
  "session (initial_state 0) ''s1'' = None
   \<and> get_openai_response paris_providers
        (location_query (full_question [''what's the weather in paris france?'']))
      = ''Paris, France''
   \<and> fst (snd (webhook paris_providers
        (delivery ''s1'' [''hey omi'', ''What's the weather in Paris France?'']) (at_time 100)
        (initial_state 0)))
      = Some (location_query ''what's the weather in paris france?'')
   \<and> fst (webhook paris_providers
        (delivery ''s1'' [''hey omi'', ''What's the weather in Paris France?'']) (at_time 100)
        (initial_state 0))
      = Message ''Sunny in Paris, France''"
proof -
  have h: "case session (initial_state 0) ''s1'' of None \<Rightarrow> True
           | Some b \<Rightarrow> \<not> trigger_detected b"
    by (simp add: session_def initial_state_def new_message_buffer_def)
  have p: "get_openai_response paris_providers q = ''Paris, France''" for q
    by (simp add: paris_providers_def)
  have f: "get_weather_forecast paris_providers ''Paris'' ''France'' = ''Sunny in Paris, France''"
    by (simp add: paris_providers_def)
  show ?thesis
    using single_request_end_to_end [OF h, of paris_providers "at_time 100"] p f
    by (simp add: Let_def session_def initial_state_def new_message_buffer_def)
qed

text \<open>
  Claim C3 as stated fails: when the second segment arrives in a later request at reading
  101, the trigger of reading 100 is confirmed and unanswered and the cooldown of 10
  seconds is running, so the request is answered with success before any segment is
  read: nothing is collected and \<open>get_openai_response\<close> is not called.
\<close>

theorem later_delivery_counterexample:
  "fst (webhook paris_providers (delivery ''s1'' [''What's the weather in Paris France?''])
          (at_time 101)
          (run (initial_state 0) [(paris_providers, delivery ''s1'' [''hey omi''], at_time 100)]))
     = Success
   \<and> fst (snd (webhook paris_providers (delivery ''s1'' [''What's the weather in Paris France?''])
          (at_time 101)
          (run (initial_state 0) [(paris_providers, delivery ''s1'' [''hey omi''], at_time 100)])))
     = None
   \<and> session (snd (snd (webhook paris_providers
          (delivery ''s1'' [''What's the weather in Paris France?'']) (at_time 101)
          (run (initial_state 0) [(paris_providers, delivery ''s1'' [''hey omi''], at_time 100)]))))
        ''s1''
     = Some ((collecting_since 100 [])\<lparr>last_activity := 101\<rparr>)"
  by code_simp

text \<open>
  Claim C1, evaluated. \<open>get_openai_response\<close> answers \<open>unknown\<close>, which has no
  comma. The handler returns the invalid location error after the call, and the record
  keeps \<open>trigger_detected\<close>, the collected question and \<open>response_sent = False\<close>:
  the assignments under \<open>Reset all states\<close> are in the other branch only.
\<close>

theorem invalid_location_leaves_collecting:
  "fst (webhook silent_providers (delivery ''s1'' [''hey omi'', ''what is the weather?''])
          (at_time 100) (initial_state 0))
     = InvalidLocation
   \<and> fst (snd (webhook silent_providers (delivery ''s1'' [''hey omi'', ''what is the weather?''])
          (at_time 100) (initial_state 0)))
     = Some (location_query ''what is the weather?'')
   \<and> session (snd (snd (webhook silent_providers
          (delivery ''s1'' [''hey omi'', ''what is the weather?'']) (at_time 100) (initial_state 0))))
        ''s1''
     = Some (collecting_since 100 [''what is the weather?''])"
  by code_simp

end
